theory Spec2Isabelle
  imports Complex_Main "HOL-Library.Word"
begin

section \<open>Arrays of the array library\<close>

text \<open>
  The operator of \<^verbatim>\<open>dlr2d_imfreq.hpp\<close> works on arrays of the nda library. An array is a
  shape, a memory layout and a contiguous buffer. In C layout the last index runs fastest, in
  Fortran layout the first one. The scalar type is a parameter: the transforms are templates
  over it.
\<close>

datatype layout = C_layout | F_layout

record 'a ndarray =
  shape :: "nat list"
  layout :: layout
  data :: "'a list"

text \<open>\<^verbatim>\<open>size()\<close>: the total number of elements, the product of the extents.\<close>

definition asize :: "'a ndarray \<Rightarrow> nat" where
  "asize a = prod_list (shape a)"

fun ravel_F :: "nat list \<Rightarrow> nat list \<Rightarrow> nat" where
  "ravel_F (d # ds) (i # js) = i + d * ravel_F ds js"
| "ravel_F _ _ = 0"

fun ravel_C :: "nat list \<Rightarrow> nat list \<Rightarrow> nat" where
  "ravel_C (d # ds) (i # js) = i * prod_list ds + ravel_C ds js"
| "ravel_C _ _ = 0"

fun unravel_F :: "nat list \<Rightarrow> nat \<Rightarrow> nat list" where
  "unravel_F [] k = []"
| "unravel_F (d # ds) k = (k mod d) # unravel_F ds (k div d)"

fun unravel_C :: "nat list \<Rightarrow> nat \<Rightarrow> nat list" where
  "unravel_C [] k = []"
| "unravel_C (d # ds) k = (k div prod_list ds) # unravel_C ds (k mod prod_list ds)"

definition offset :: "layout \<Rightarrow> nat list \<Rightarrow> nat list \<Rightarrow> nat" where
  "offset L s idx = (case L of C_layout \<Rightarrow> ravel_C s idx | F_layout \<Rightarrow> ravel_F s idx)"

definition multi_index :: "layout \<Rightarrow> nat list \<Rightarrow> nat \<Rightarrow> nat list" where
  "multi_index L s k = (case L of C_layout \<Rightarrow> unravel_C s k | F_layout \<Rightarrow> unravel_F s k)"

text \<open>\<^verbatim>\<open>a(i, j, ...)\<close>: the element at a multi-index.\<close>

definition elem_at :: "'a ndarray \<Rightarrow> nat list \<Rightarrow> 'a" where
  "elem_at a idx = data a ! offset (layout a) (shape a) idx"

definition valid_index :: "nat list \<Rightarrow> nat list \<Rightarrow> bool" where
  "valid_index s idx = list_all2 (\<lambda>i d. i < d) idx s"

text \<open>An array of the library has rank at least one and a buffer that holds its elements.\<close>

definition wf_array :: "'a ndarray \<Rightarrow> bool" where
  "wf_array a = (shape a \<noteq> [] \<and> length (data a) = asize a)"

text \<open>
  Constructing an array of layout \<open>L\<close> from another array copies it element by element:
  the same element at every multi-index, stored in the order of \<open>L\<close>.
\<close>

definition to_layout :: "layout \<Rightarrow> 'a ndarray \<Rightarrow> 'a ndarray" where
  "to_layout L a =
     \<lparr>shape = shape a, layout = L,
      data = map (\<lambda>k. elem_at a (multi_index L (shape a) k)) [0..<asize a]\<rparr>"

text \<open>
  \<^verbatim>\<open>fmatrix\<close>: a matrix in Fortran layout. The buffer is column-major: entry \<open>(i, j)\<close> is at
  \<open>i + extent0 * j\<close>.
\<close>

record 'a fmatrix =
  extent0 :: nat
  extent1 :: nat
  fdata :: "'a list"

definition entry :: "'a fmatrix \<Rightarrow> nat \<Rightarrow> nat \<Rightarrow> 'a" where
  "entry A i j = fdata A ! (i + extent0 A * j)"

section \<open>Errors\<close>

text \<open>
  \<open>Runtime_error\<close> is a thrown \<^verbatim>\<open>std::runtime_error\<close> with its message.
  \<open>Division_by_zero\<close> is the integer division \<^verbatim>\<open>g.size() / r\<close> at \<open>r = 0\<close>.
  \<open>Contract_violation\<close> is a call of a library routine outside its documented
  preconditions (dimensions that do not agree, a pivot out of range).
\<close>

datatype error =
    Runtime_error string
  | Division_by_zero
  | Contract_violation string

section \<open>The operator\<close>

text \<open>
  The member \<^verbatim>\<open>r\<close> is an \<^verbatim>\<open>int\<close>, a signed word of 32 bits, while extents and sizes are
  \<^verbatim>\<open>long\<close>. Storing a \<^verbatim>\<open>long\<close> in it keeps the value modulo \<open>2 ^ 32\<close>.
\<close>

definition int_of_long :: "int \<Rightarrow> 32 word" where
  "int_of_long n = word_of_int n"

record 'a if2cf_t =
  lu :: "'a fmatrix"
  piv :: "int list"

text \<open>
  A scalar of type \<^verbatim>\<open>double\<close> is only stored, copied, written and read back here, never
  computed with. Its value is kept as a real number; a variable or member that nothing
  initialised holds an indeterminate value, and copying or writing it passes that on.
\<close>

datatype double = Indeterminate | Val real

text \<open>
  The private members of \<^verbatim>\<open>imfreq_ops_2d\<close>. The members \<^verbatim>\<open>lambda_\<close>, \<^verbatim>\<open>eps_\<close> and
  \<^verbatim>\<open>r\<close> carry the suffix \<open>_m\<close>.
\<close>

record 'a imfreq_ops_2d =
  lambda_m :: double
  eps_m :: double
  r_m :: "32 word"
  dlr_rf :: "real list"
  dlr2d_if :: "int ndarray"
  cf2if :: "'a fmatrix"
  if2cf :: "'a if2cf_t"

text \<open>
  The first constructor calls \<^verbatim>\<open>build_dlr2d_if\<close> and \<^verbatim>\<open>build_cf2if\<close> of \<^verbatim>\<open>dlr2d.hpp\<close>,
  \<^verbatim>\<open>build_dlr_rf\<close> of cppdlr and \<^verbatim>\<open>getrf\<close> of LAPACK; it takes them as parameters here.
  \<open>getrf\<close> receives the matrix and the length of the pivot vector (whose contents are
  not initialised before the call) and returns both after the factorisation in place.
\<close>

record 'a dlr_lib =
  build_dlr2d_if :: "double \<Rightarrow> double \<Rightarrow> int ndarray"
  build_dlr_rf :: "double \<Rightarrow> double \<Rightarrow> bool \<Rightarrow> real list"
  build_cf2if :: "double \<Rightarrow> real list \<Rightarrow> int ndarray \<Rightarrow> 'a fmatrix"
  getrf :: "'a fmatrix \<Rightarrow> nat \<Rightarrow> 'a fmatrix \<times> int list"

text \<open>\<^verbatim>\<open>imfreq_ops_2d(double lambda, double eps)\<close>\<close>

definition imfreq_ops_2d_new :: "'a dlr_lib \<Rightarrow> double \<Rightarrow> double \<Rightarrow> 'a imfreq_ops_2d" where
  "imfreq_ops_2d_new lib lam ep =
     (let nodes = build_dlr2d_if lib lam ep;
          r' = int_of_long (int (asize nodes));
          rf = build_dlr_rf lib lam ep False;
          c = build_cf2if lib lam rf nodes;
          (f, p) = getrf lib c (nat (sint r'))
      in \<lparr>lambda_m = lam, eps_m = ep, r_m = r', dlr_rf = rf, dlr2d_if = nodes,
          cf2if = c, if2cf = \<lparr>lu = f, piv = p\<rparr>\<rparr>)"

text \<open>
  \<^verbatim>\<open>imfreq_ops_2d(lambda, eps, dlr_rf, dlr2d_if, cf2if, if2cf_lu, if2cf_piv)\<close>: the member
  initialiser list names \<^verbatim>\<open>lambda_\<close>, \<^verbatim>\<open>r\<close>, \<^verbatim>\<open>dlr_rf\<close>, \<^verbatim>\<open>dlr2d_if\<close>, \<^verbatim>\<open>cf2if\<close>
  and \<^verbatim>\<open>if2cf\<close>; the body is empty. The member \<^verbatim>\<open>eps_\<close> is not named and has no default
  initialiser, so it is left as it is: indeterminate.
\<close>

definition imfreq_ops_2d_fields ::
  "double \<Rightarrow> double \<Rightarrow> real list \<Rightarrow> int ndarray \<Rightarrow> 'a fmatrix \<Rightarrow> 'a fmatrix \<Rightarrow> int list
     \<Rightarrow> 'a imfreq_ops_2d" where
  "imfreq_ops_2d_fields lam ep rf nodes c if2cf_lu if2cf_piv =
     \<lparr>lambda_m = lam, eps_m = Indeterminate, r_m = int_of_long (int (extent1 c)), dlr_rf = rf,
      dlr2d_if = nodes, cf2if = c, if2cf = \<lparr>lu = if2cf_lu, piv = if2cf_piv\<rparr>\<rparr>"

text \<open>
  \<^verbatim>\<open>imfreq_ops_2d() = default\<close>: the arrays are empty and the scalar members are not
  initialised; \<open>r0\<close> stands for whatever the member \<^verbatim>\<open>r\<close> holds then.
\<close>

definition imfreq_ops_2d_default :: "32 word \<Rightarrow> 'a imfreq_ops_2d" where
  "imfreq_ops_2d_default r0 =
     \<lparr>lambda_m = Indeterminate, eps_m = Indeterminate, r_m = r0, dlr_rf = [],
      dlr2d_if = \<lparr>shape = [0, 0], layout = C_layout, data = []\<rparr>,
      cf2if = \<lparr>extent0 = 0, extent1 = 0, fdata = []\<rparr>,
      if2cf = \<lparr>lu = \<lparr>extent0 = 0, extent1 = 0, fdata = []\<rparr>, piv = []\<rparr>\<rparr>"

subsection \<open>Accessors\<close>

definition rank :: "'a imfreq_ops_2d \<Rightarrow> int" where
  "rank m = sint (r_m m)"

definition lambda :: "'a imfreq_ops_2d \<Rightarrow> double" where
  "lambda m = lambda_m m"

definition eps :: "'a imfreq_ops_2d \<Rightarrow> double" where
  "eps m = eps_m m"

definition get_rfnodes :: "'a imfreq_ops_2d \<Rightarrow> real list" where
  "get_rfnodes m = dlr_rf m"

definition get_ifnodes :: "'a imfreq_ops_2d \<Rightarrow> int ndarray" where
  "get_ifnodes m = dlr2d_if m"

definition get_ifnodes_at :: "'a imfreq_ops_2d \<Rightarrow> nat \<Rightarrow> int \<times> int" where
  "get_ifnodes_at m i = (elem_at (dlr2d_if m) [i, 0], elem_at (dlr2d_if m) [i, 1])"

definition get_cf2if :: "'a imfreq_ops_2d \<Rightarrow> 'a fmatrix" where
  "get_cf2if m = cf2if m"

definition get_if2cf_lu :: "'a imfreq_ops_2d \<Rightarrow> 'a fmatrix" where
  "get_if2cf_lu m = lu (if2cf m)"

definition get_if2cf_piv :: "'a imfreq_ops_2d \<Rightarrow> int list" where
  "get_if2cf_piv m = piv (if2cf m)"

section \<open>Routines of the array library and of LAPACK\<close>

text \<open>
  \<^verbatim>\<open>nda::reshape\<close>: a view of the same buffer in the same layout with another shape; the
  number of elements has to stay the same.
\<close>

definition reshape :: "'a ndarray \<Rightarrow> nat list \<Rightarrow> error + 'a ndarray" where
  "reshape a s =
     (if prod_list s = asize a then Inr (a\<lparr>shape := s\<rparr>)
      else Inl (Contract_violation ''reshape''))"

text \<open>
  The product \<^verbatim>\<open>cf2if * M\<close> of the Fortran-layout matrix with a matrix view \<open>M\<close>: entry
  \<open>(i, j)\<close> is the sum over \<open>l\<close> of \<open>A(i, l) * M(l, j)\<close>. The inner extents have to agree.
  The result is stored in the layout of \<open>M\<close>.
\<close>

definition dot :: "'a::{zero,plus,times} fmatrix \<Rightarrow> 'a ndarray \<Rightarrow> nat \<Rightarrow> nat \<Rightarrow> 'a" where
  "dot A M i j = foldl (\<lambda>acc l. acc + entry A i l * elem_at M [l, j]) 0 [0..<extent1 A]"

definition matmul :: "'a::{zero,plus,times} fmatrix \<Rightarrow> 'a ndarray \<Rightarrow> error + 'a ndarray" where
  "matmul A M =
     (case shape M of
        [k, n] \<Rightarrow>
          if extent1 A \<noteq> k then Inl (Contract_violation ''matmul'')
          else Inr \<lparr>shape = [extent0 A, n], layout = layout M,
                    data = map (\<lambda>p. let idx = multi_index (layout M) [extent0 A, n] p
                                     in dot A M (idx ! 0) (idx ! 1))
                               [0..<extent0 A * n]\<rparr>
      | _ \<Rightarrow> Inl (Contract_violation ''matmul''))"

text \<open>
  \<^verbatim>\<open>getrs\<close> solves with the factors that \<^verbatim>\<open>getrf\<close> left in one matrix: the unit lower
  triangle below the diagonal, the upper triangle on and above it, and the row interchanges
  in the pivot vector (counted from 1). It works on every column of the right-hand side in
  place: the interchanges (\<^verbatim>\<open>laswp\<close>), the solve with the unit lower triangle and the solve
  with the upper triangle (\<^verbatim>\<open>trsm\<close>), as the reference implementation does them.
\<close>

definition swap_rows :: "nat \<Rightarrow> nat \<Rightarrow> 'a list \<Rightarrow> 'a list" where
  "swap_rows i ip b = (if ip \<noteq> i then b[i := b ! ip, ip := b ! i] else b)"

definition laswp :: "int list \<Rightarrow> 'a list \<Rightarrow> 'a list" where
  "laswp p b = foldl (\<lambda>c i. swap_rows i (nat (p ! i - 1)) c) b [0..<length b]"

definition lower_step :: "'a::{zero,minus,times} fmatrix \<Rightarrow> nat \<Rightarrow> 'a list \<Rightarrow> 'a list" where
  "lower_step A k b =
     (if b ! k = 0 then b
      else map (\<lambda>i. if k < i then b ! i - b ! k * entry A i k else b ! i) [0..<length b])"

definition trsm_lower_unit :: "'a::{zero,minus,times} fmatrix \<Rightarrow> 'a list \<Rightarrow> 'a list" where
  "trsm_lower_unit A b = foldl (\<lambda>c k. lower_step A k c) b [0..<length b]"

definition upper_step :: "'a::{zero,minus,times,inverse} fmatrix \<Rightarrow> nat \<Rightarrow> 'a list \<Rightarrow> 'a list" where
  "upper_step A k b =
     (if b ! k = 0 then b
      else let x = b ! k / entry A k k
           in map (\<lambda>i. if i < k then b ! i - x * entry A i k else if i = k then x else b ! i)
                  [0..<length b])"

primrec upper_sweep :: "'a::{zero,minus,times,inverse} fmatrix \<Rightarrow> nat \<Rightarrow> 'a list \<Rightarrow> 'a list" where
  "upper_sweep A 0 b = b"
| "upper_sweep A (Suc k) b = upper_sweep A k (upper_step A k b)"

definition trsm_upper :: "'a::{zero,minus,times,inverse} fmatrix \<Rightarrow> 'a list \<Rightarrow> 'a list" where
  "trsm_upper A b = upper_sweep A (length b) b"

definition getrs_col :: "'a::{zero,minus,times,inverse} fmatrix \<Rightarrow> int list \<Rightarrow> 'a list \<Rightarrow> 'a list" where
  "getrs_col A p b = trsm_upper A (trsm_lower_unit A (laswp p b))"

text \<open>The columns of a column-major buffer with \<open>n\<close> rows and \<open>k\<close> columns.\<close>

definition chunks :: "nat \<Rightarrow> nat \<Rightarrow> 'a list \<Rightarrow> 'a list list" where
  "chunks n k xs = map (\<lambda>j. take n (drop (j * n) xs)) [0..<k]"

definition pivots_ok :: "nat \<Rightarrow> int list \<Rightarrow> bool" where
  "pivots_ok n p = (n \<le> length p \<and> list_all (\<lambda>q. 1 \<le> q \<and> q \<le> int n) (take n p))"

definition getrs ::
  "'a::{zero,minus,times,inverse} fmatrix \<Rightarrow> 'a ndarray \<Rightarrow> int list \<Rightarrow> error + 'a ndarray" where
  "getrs A B p =
     (case shape B of
        [n, nrhs] \<Rightarrow>
          if extent0 A = n \<and> extent1 A = n \<and> layout B = F_layout \<and> pivots_ok n p
          then Inr (B\<lparr>data := concat (map (getrs_col A p) (chunks n nrhs (data B)))\<rparr>)
          else Inl (Contract_violation ''getrs'')
      | _ \<Rightarrow> Inl (Contract_violation ''getrs''))"

section \<open>The transforms\<close>

text \<open>The value of the member \<^verbatim>\<open>r\<close> where it is compared or divided with a \<^verbatim>\<open>long\<close>.\<close>

definition r_long :: "'a imfreq_ops_2d \<Rightarrow> int" where
  "r_long m = sint (r_m m)"

text \<open>
  \<^verbatim>\<open>vals2coefs\<close>. The view \<^verbatim>\<open>gfv\<close> shares the buffer of the copy \<^verbatim>\<open>gf\<close>, so what
  \<^verbatim>\<open>getrs\<close> wrote through the view is the buffer of \<^verbatim>\<open>gf\<close> afterwards. The result is
  converted to the regular type of the argument, which has the argument's layout.
\<close>

definition vals2coefs ::
  "'a::{zero,minus,times,inverse} imfreq_ops_2d \<Rightarrow> 'a ndarray \<Rightarrow> error + 'a ndarray" where
  "vals2coefs m g =
     (if r_long m \<noteq> int (shape g ! 0)
      then Inl (Runtime_error ''First dim of g != # DLR imaginary frequency nodes.'')
      else
        let gf = to_layout F_layout g in
        if r_long m = 0 then Inl Division_by_zero
        else
          case reshape gf [nat (r_long m), nat (int (asize g) div r_long m)] of
            Inl e \<Rightarrow> Inl e
          | Inr gfv \<Rightarrow>
             (case getrs (lu (if2cf m)) gfv (piv (if2cf m)) of
                Inl e \<Rightarrow> Inl e
              | Inr gfv' \<Rightarrow> Inr (to_layout (layout g) (gf\<lparr>data := data gfv'\<rparr>))))"

text \<open>
  \<^verbatim>\<open>coefs2vals\<close>. The template parameter \<^verbatim>\<open>S\<close> is the scalar type of the argument;
  \<open>promote\<close> is its conversion to the scalar type of \<^verbatim>\<open>cf2if\<close>. The product has the
  layout of the view of the argument, so the last \<^verbatim>\<open>reshape\<close> orders the batch as the
  first one did.
\<close>

definition coefs2vals ::
  "('s \<Rightarrow> 'a) \<Rightarrow> 'a::{zero,plus,times} imfreq_ops_2d \<Rightarrow> 's ndarray \<Rightarrow> error + 'a ndarray" where
  "coefs2vals promote m gc =
     (if r_long m \<noteq> int (shape gc ! 0) then Inl (Runtime_error ''First dim of gc != DLR rank r.'')
      else if r_long m = 0 then Inl Division_by_zero
      else
        case reshape gc [nat (r_long m), nat (int (asize gc) div r_long m)] of
          Inl e \<Rightarrow> Inl e
        | Inr gc_rs \<Rightarrow>
           (case matmul (cf2if m)
                   \<lparr>shape = shape gc_rs, layout = layout gc_rs, data = map promote (data gc_rs)\<rparr> of
              Inl e \<Rightarrow> Inl e
            | Inr g \<Rightarrow> reshape g (nat (r_long m) # tl (shape gc))))"

text \<open>
  \<^verbatim>\<open>coefs2eval\<close>. For an argument of rank one the result is a complex number, otherwise
  an array with the leading axis removed.
\<close>

datatype 's eval_result = Eval_scalar complex | Eval_array "'s ndarray"

definition coefs2eval :: "'a imfreq_ops_2d \<Rightarrow> 's ndarray \<Rightarrow> int \<Rightarrow> int \<Rightarrow> error + 's eval_result" where
  "coefs2eval m gc n_ix m_ix =
     (if r_long m \<noteq> int (shape gc ! 0) then Inl (Runtime_error ''First dim of g != DLR rank r.'')
      else if length (shape gc) = 1 then Inr (Eval_scalar 0)
      else if r_long m = 0 then Inl Division_by_zero
      else
        case reshape gc [nat (r_long m), nat (int (asize gc) div r_long m)] of
          Inl e \<Rightarrow> Inl e
        | Inr gc_rs \<Rightarrow>
           (case reshape \<lparr>shape = [0, 0], layout = C_layout, data = []\<rparr> (tl (shape gc)) of
              Inl e \<Rightarrow> Inl e
            | Inr g \<Rightarrow> Inr (Eval_array g)))"

text \<open>
  The ready state, as far as the transforms read it: the rank is positive, the matrix
  \<^verbatim>\<open>cf2if\<close> and the factors have as many rows and columns as the rank says, and the pivots
  are row numbers of the factors.
\<close>

definition ready :: "'a imfreq_ops_2d \<Rightarrow> bool" where
  "ready m =
     (0 < rank m \<and>
      extent0 (cf2if m) = nat (rank m) \<and> extent1 (cf2if m) = nat (rank m) \<and>
      extent0 (lu (if2cf m)) = nat (rank m) \<and> extent1 (lu (if2cf m)) = nat (rank m) \<and>
      pivots_ok (nat (rank m)) (piv (if2cf m)))"

section \<open>Persistence\<close>

text \<open>
  An archive for \<^verbatim>\<open>serialize\<close> and \<^verbatim>\<open>deserialize\<close> is the sequence of the members
  that \<^verbatim>\<open>operator&\<close> received, in order.
\<close>

datatype 'a ar_value =
    Ar_double double
  | Ar_int "32 word"
  | Ar_vector_double "real list"
  | Ar_array_int "int ndarray"
  | Ar_fmatrix "'a fmatrix"
  | Ar_vector_int "int list"

definition serialize :: "'a imfreq_ops_2d \<Rightarrow> 'a ar_value list" where
  "serialize m =
     [Ar_double (lambda_m m), Ar_int (r_m m), Ar_vector_double (dlr_rf m),
      Ar_array_int (dlr2d_if m), Ar_fmatrix (cf2if m), Ar_fmatrix (lu (if2cf m)),
      Ar_vector_int (piv (if2cf m))]"

text \<open>\<^verbatim>\<open>deserialize\<close> assigns the members it lists to the object it is called on.\<close>

definition deserialize :: "'a ar_value list \<Rightarrow> 'a imfreq_ops_2d \<Rightarrow> 'a imfreq_ops_2d option" where
  "deserialize ar m =
     (case ar of
        [Ar_double lam, Ar_int r', Ar_vector_double rf, Ar_array_int nodes, Ar_fmatrix c,
         Ar_fmatrix f, Ar_vector_int p] \<Rightarrow>
          Some (m\<lparr>lambda_m := lam, r_m := r', dlr_rf := rf, dlr2d_if := nodes, cf2if := c,
                  if2cf := \<lparr>lu = f, piv = p\<rparr>\<rparr>)
      | _ \<Rightarrow> None)"

text \<open>
  An HDF5 group holds the string attribute \<^verbatim>\<open>Format\<close>, when it was written, and named
  datasets. A file or parent group maps the names of its subgroups to them.
\<close>

datatype 'a h5_value =
    H5_double double
  | H5_vector_double "real list"
  | H5_array_int "int ndarray"
  | H5_fmatrix "'a fmatrix"
  | H5_vector_int "int list"

record 'a h5_group =
  format_attr :: "string option"
  datasets :: "string \<rightharpoonup> 'a h5_value"

type_synonym 'a h5_file = "string \<rightharpoonup> 'a h5_group"

text \<open>
  The errors of the HDF5 interface are runtime errors as well: a format tag that is not the
  expected one (with the tag found and the tag expected), and a group or dataset that is
  missing or holds another type.
\<close>

datatype h5_error = Format_mismatch string string | H5_read_error string

definition hdf5_format :: string where
  "hdf5_format = ''cppdlr::imfreq_ops''"

definition write_hdf5_format_as_string :: "'a h5_group \<Rightarrow> string \<Rightarrow> 'a h5_group" where
  "write_hdf5_format_as_string gr s = gr\<lparr>format_attr := Some s\<rparr>"

definition h5_write_dataset :: "'a h5_group \<Rightarrow> string \<Rightarrow> 'a h5_value \<Rightarrow> 'a h5_group" where
  "h5_write_dataset gr name v = gr\<lparr>datasets := (datasets gr)(name \<mapsto> v)\<rparr>"

text \<open>The tag read from a group is the empty string when the attribute is absent.\<close>

definition read_hdf5_format :: "'a h5_group \<Rightarrow> string" where
  "read_hdf5_format gr = (case format_attr gr of None \<Rightarrow> [] | Some s \<Rightarrow> s)"

text \<open>
  \<^verbatim>\<open>assert_hdf5_format_as_string(g, tag_expected, ignore_if_absent)\<close> of the HDF5 interface
  throws when the tag of the group is not the expected one; with \<^verbatim>\<open>ignore_if_absent\<close> a
  group without a tag passes.
\<close>

definition assert_hdf5_format_as_string :: "'a h5_group \<Rightarrow> string \<Rightarrow> bool \<Rightarrow> h5_error + unit" where
  "assert_hdf5_format_as_string gr tag_expected ignore_if_absent =
     (let tag_file = read_hdf5_format gr
      in if ignore_if_absent \<and> tag_file = [] then Inr ()
         else if tag_file \<noteq> tag_expected then Inl (Format_mismatch tag_file tag_expected)
         else Inr ())"

definition h5_read_double :: "'a h5_group \<Rightarrow> string \<Rightarrow> h5_error + double" where
  "h5_read_double gr name =
     (case datasets gr name of Some (H5_double x) \<Rightarrow> Inr x | _ \<Rightarrow> Inl (H5_read_error name))"

definition h5_read_vector_double :: "'a h5_group \<Rightarrow> string \<Rightarrow> h5_error + real list" where
  "h5_read_vector_double gr name =
     (case datasets gr name of Some (H5_vector_double x) \<Rightarrow> Inr x | _ \<Rightarrow> Inl (H5_read_error name))"

definition h5_read_array_int :: "'a h5_group \<Rightarrow> string \<Rightarrow> h5_error + int ndarray" where
  "h5_read_array_int gr name =
     (case datasets gr name of Some (H5_array_int x) \<Rightarrow> Inr x | _ \<Rightarrow> Inl (H5_read_error name))"

definition h5_read_fmatrix :: "'a h5_group \<Rightarrow> string \<Rightarrow> h5_error + 'a fmatrix" where
  "h5_read_fmatrix gr name =
     (case datasets gr name of Some (H5_fmatrix x) \<Rightarrow> Inr x | _ \<Rightarrow> Inl (H5_read_error name))"

definition h5_read_vector_int :: "'a h5_group \<Rightarrow> string \<Rightarrow> h5_error + int list" where
  "h5_read_vector_int gr name =
     (case datasets gr name of Some (H5_vector_int x) \<Rightarrow> Inr x | _ \<Rightarrow> Inl (H5_read_error name))"

text \<open>\<^verbatim>\<open>h5_write\<close>. Creating the subgroup replaces a subgroup of that name.\<close>

definition h5_write :: "'a h5_file \<Rightarrow> string \<Rightarrow> 'a imfreq_ops_2d \<Rightarrow> 'a h5_file" where
  "h5_write fg subgroup_name m =
     (let gr0 = write_hdf5_format_as_string \<lparr>format_attr = None, datasets = Map.empty\<rparr>
                  ''cppdlr::imfreq_ops'';
          gr1 = h5_write_dataset gr0 ''lambda'' (H5_double (lambda m));
          gr2 = h5_write_dataset gr1 ''eps'' (H5_double (eps m));
          gr3 = h5_write_dataset gr2 ''rf'' (H5_vector_double (get_rfnodes m));
          gr4 = h5_write_dataset gr3 ''if'' (H5_array_int (get_ifnodes m));
          gr5 = h5_write_dataset gr4 ''cf2if'' (H5_fmatrix (get_cf2if m));
          gr6 = h5_write_dataset gr5 ''if2cf_lu'' (H5_fmatrix (get_if2cf_lu m));
          gr7 = h5_write_dataset gr6 ''if2cf_piv'' (H5_vector_int (get_if2cf_piv m))
      in fg(subgroup_name \<mapsto> gr7))"

text \<open>
  \<^verbatim>\<open>h5_read\<close> returns the names of the datasets it asked for, in order, and either the
  error thrown or the operator assigned to \<^verbatim>\<open>m\<close>.
\<close>

definition h5_read :: "'a h5_file \<Rightarrow> string \<Rightarrow> string list \<times> (h5_error + 'a imfreq_ops_2d)" where
  "h5_read fg subgroup_name =
     (case fg subgroup_name of
        None \<Rightarrow> ([], Inl (H5_read_error subgroup_name))
      | Some gr \<Rightarrow>
     (case assert_hdf5_format_as_string gr ''cppdlr::imfreq_ops'' True of
        Inl e \<Rightarrow> ([], Inl e)
      | Inr _ \<Rightarrow>
     (case h5_read_double gr ''lambda'' of
        Inl e \<Rightarrow> ([''lambda''], Inl e)
      | Inr lam \<Rightarrow>
     (case h5_read_double gr ''eps'' of
        Inl e \<Rightarrow> ([''lambda'', ''eps''], Inl e)
      | Inr ep \<Rightarrow>
     (case h5_read_vector_double gr ''rf'' of
        Inl e \<Rightarrow> ([''lambda'', ''eps'', ''rf''], Inl e)
      | Inr rf \<Rightarrow>
     (case h5_read_array_int gr ''if'' of
        Inl e \<Rightarrow> ([''lambda'', ''eps'', ''rf'', ''if''], Inl e)
      | Inr nodes \<Rightarrow>
     (case h5_read_fmatrix gr ''cf2if'' of
        Inl e \<Rightarrow> ([''lambda'', ''eps'', ''rf'', ''if'', ''cf2if''], Inl e)
      | Inr c \<Rightarrow>
     (case h5_read_fmatrix gr ''if2cf_lu'' of
        Inl e \<Rightarrow> ([''lambda'', ''eps'', ''rf'', ''if'', ''cf2if'', ''if2cf_lu''], Inl e)
      | Inr f \<Rightarrow>
     (case h5_read_vector_int gr ''if2cf_piv'' of
        Inl e \<Rightarrow>
          ([''lambda'', ''eps'', ''rf'', ''if'', ''cf2if'', ''if2cf_lu'', ''if2cf_piv''], Inl e)
      | Inr p \<Rightarrow>
          ([''lambda'', ''eps'', ''rf'', ''if'', ''cf2if'', ''if2cf_lu'', ''if2cf_piv''],
           Inr (imfreq_ops_2d_fields lam ep rf nodes c f p)))))))))))"

section \<open>Example operators\<close>

text \<open>
  An operator of rank two in the ready state with cutoff 10 and tolerance \<open>1e-5\<close>: the
  matrix with rows \<open>(1, 2)\<close> and \<open>(2, 1)\<close> and its factors with the two rows interchanged.
  It is what the first constructor builds when the routines it calls return these arrays.
\<close>

definition ops_ex :: "complex imfreq_ops_2d" where
  "ops_ex =
     \<lparr>lambda_m = Val 10, eps_m = Val (1 / 100000), r_m = 2, dlr_rf = [- 1, 1],
      dlr2d_if = \<lparr>shape = [1, 2], layout = C_layout, data = [0, 0]\<rparr>,
      cf2if = \<lparr>extent0 = 2, extent1 = 2, fdata = [1, 2, 2, 1]\<rparr>,
      if2cf = \<lparr>lu = \<lparr>extent0 = 2, extent1 = 2, fdata = [2, 1 / 2, 1, 3 / 2]\<rparr>,
               piv = [2, 2]\<rparr>\<rparr>"

definition lib_ex :: "complex dlr_lib" where
  "lib_ex =
     \<lparr>build_dlr2d_if = (\<lambda>lam ep. \<lparr>shape = [1, 2], layout = C_layout, data = [0, 0]\<rparr>),
      build_dlr_rf = (\<lambda>lam ep sym. [- 1, 1]),
      build_cf2if = (\<lambda>lam rf nodes. \<lparr>extent0 = 2, extent1 = 2, fdata = [1, 2, 2, 1]\<rparr>),
      getrf = (\<lambda>a n. (\<lparr>extent0 = 2, extent1 = 2, fdata = [2, 1 / 2, 1, 3 / 2]\<rparr>, [2, 2]))\<rparr>"

text \<open>
  A file with one group that holds every dataset of an operator of rank one and no format
  tag, and the same file with the tag of another format.
\<close>

definition untagged_group_ex :: "complex h5_group" where
  "untagged_group_ex =
     \<lparr>format_attr = None,
      datasets = [''lambda'' \<mapsto> H5_double (Val 10), ''eps'' \<mapsto> H5_double (Val (1 / 100000)),
                  ''rf'' \<mapsto> H5_vector_double [1],
                  ''if'' \<mapsto> H5_array_int \<lparr>shape = [1, 2], layout = C_layout, data = [0, 0]\<rparr>,
                  ''cf2if'' \<mapsto> H5_fmatrix \<lparr>extent0 = 1, extent1 = 1, fdata = [5]\<rparr>,
                  ''if2cf_lu'' \<mapsto> H5_fmatrix \<lparr>extent0 = 1, extent1 = 1, fdata = [5]\<rparr>,
                  ''if2cf_piv'' \<mapsto> H5_vector_int [1]]\<rparr>"

definition untagged_file_ex :: "complex h5_file" where
  "untagged_file_ex = [''ifops'' \<mapsto> untagged_group_ex]"

definition mistagged_file_ex :: "complex h5_file" where
  "mistagged_file_ex = [''ifops'' \<mapsto> untagged_group_ex\<lparr>format_attr := Some ''cppdlr::imtime_ops''\<rparr>]"

text \<open>
  The constructor from fields applied to members that do not agree: three real frequencies,
  two node pairs and matrices with one row and one column.
\<close>

definition mixed_ops_ex :: "complex imfreq_ops_2d" where
  "mixed_ops_ex =
     imfreq_ops_2d_fields (Val 10) (Val (1 / 100000)) [1, 2, 3]
       \<lparr>shape = [2, 2], layout = C_layout, data = [0, 0, 1, - 1]\<rparr>
       \<lparr>extent0 = 1, extent1 = 1, fdata = [5]\<rparr>
       \<lparr>extent0 = 1, extent1 = 1, fdata = [5]\<rparr> [1]"

section \<open>Columns of a batch\<close>

text \<open>
  The column of a batched array at the trailing indices \<open>js\<close>: the array \<^verbatim>\<open>a(range::all, j1, ..., jk)\<close>
  of rank one along the leading axis.
\<close>

definition column :: "'a ndarray \<Rightarrow> nat list \<Rightarrow> 'a ndarray" where
  "column a js =
     \<lparr>shape = [shape a ! 0], layout = layout a,
      data = map (\<lambda>i. elem_at a (i # js)) [0..<shape a ! 0]\<rparr>"

section \<open>The factors of a matrix\<close>

text \<open>
  What \<^verbatim>\<open>getrf\<close> leaves for \<^verbatim>\<open>getrs\<close>: one matrix with the upper triangle \<open>U\<close> on and above
  the diagonal and the multipliers of the unit lower triangle \<open>L\<close> below it, and the row
  interchanges \<open>P\<close>, such that \<open>P A = L U\<close>. The solve divides by the diagonal of \<open>U\<close>.
\<close>

definition unit_lower :: "'a::{zero,one} fmatrix \<Rightarrow> nat \<Rightarrow> nat \<Rightarrow> 'a" where
  "unit_lower F i k = (if i = k then 1 else if k < i then entry F i k else 0)"

definition upper :: "'a::zero fmatrix \<Rightarrow> nat \<Rightarrow> nat \<Rightarrow> 'a" where
  "upper F k j = (if k \<le> j then entry F k j else 0)"

definition matrix_column :: "'a fmatrix \<Rightarrow> nat \<Rightarrow> 'a list" where
  "matrix_column A j = map (\<lambda>i. entry A i j) [0..<extent0 A]"

definition factors_of :: "'a::field fmatrix \<Rightarrow> int list \<Rightarrow> 'a fmatrix \<Rightarrow> bool" where
  "factors_of F p A =
     (list_all (\<lambda>k. entry F k k \<noteq> 0) [0..<extent0 A] \<and>
      list_all (\<lambda>j. laswp p (matrix_column A j)
                      = map (\<lambda>i. \<Sum>k<extent0 A. unit_lower F i k * upper F k j) [0..<extent0 A])
        [0..<extent1 A])"

section \<open>The transform to coefficients with its buffers in memory\<close>

text \<open>
  \<^verbatim>\<open>vals2coefs\<close> once more, now with the buffers in a store, to follow which buffer is
  read and which is written. An array or view is its shape, its layout and the address of
  its buffer; a view made by \<^verbatim>\<open>reshape\<close> has the address of the array it views. The
  addresses below \<open>next_free\<close> are in use.
\<close>

record 'a store =
  buffers :: "nat \<Rightarrow> 'a list"
  next_free :: nat

record handle =
  vshape :: "nat list"
  vlayout :: layout
  vaddr :: nat

definition load :: "'a store \<Rightarrow> handle \<Rightarrow> 'a ndarray" where
  "load s h = \<lparr>shape = vshape h, layout = vlayout h, data = buffers s (vaddr h)\<rparr>"

text \<open>Constructing an array allocates a buffer for its elements.\<close>

definition new_array :: "'a ndarray \<Rightarrow> 'a store \<Rightarrow> handle \<times> 'a store" where
  "new_array a s =
     (\<lparr>vshape = shape a, vlayout = layout a, vaddr = next_free s\<rparr>,
      s\<lparr>buffers := (buffers s)(next_free s := data a), next_free := Suc (next_free s)\<rparr>)"

definition reshape_view :: "handle \<Rightarrow> nat list \<Rightarrow> error + handle" where
  "reshape_view h s =
     (if prod_list s = prod_list (vshape h) then Inr (h\<lparr>vshape := s\<rparr>)
      else Inl (Contract_violation ''reshape''))"

text \<open>\<^verbatim>\<open>getrs\<close> overwrites the buffer of the right-hand side with the solution.\<close>

definition getrs_inplace ::
  "'a::{zero,minus,times,inverse} fmatrix \<Rightarrow> handle \<Rightarrow> int list \<Rightarrow> 'a store \<Rightarrow> error + 'a store" where
  "getrs_inplace A B p s =
     (case getrs A (load s B) p of
        Inl e \<Rightarrow> Inl e
      | Inr X \<Rightarrow> Inr (s\<lparr>buffers := (buffers s)(vaddr B := data X)\<rparr>))"

definition vals2coefs_st ::
  "'a::{zero,minus,times,inverse} imfreq_ops_2d \<Rightarrow> handle \<Rightarrow> 'a store
     \<Rightarrow> error + handle \<times> 'a store" where
  "vals2coefs_st m g s =
     (if r_long m \<noteq> int (vshape g ! 0)
      then Inl (Runtime_error ''First dim of g != # DLR imaginary frequency nodes.'')
      else
        let (gf, s1) = new_array (to_layout F_layout (load s g)) s in
        if r_long m = 0 then Inl Division_by_zero
        else
          case reshape_view gf [nat (r_long m), nat (int (prod_list (vshape g)) div r_long m)] of
            Inl e \<Rightarrow> Inl e
          | Inr gfv \<Rightarrow>
             (case getrs_inplace (lu (if2cf m)) gfv (piv (if2cf m)) s1 of
                Inl e \<Rightarrow> Inl e
              | Inr s2 \<Rightarrow> Inr (new_array (to_layout (vlayout g) (load s2 gf)) s2)))"






section \<open>Properties: auxiliary facts\<close>

lemma int_of_long_small: "0 \<le> n \<Longrightarrow> n < 2 ^ 31 \<Longrightarrow> sint (int_of_long n) = n"
  unfolding int_of_long_def
  by (simp add: sint_sbintrunc' signed_take_bit_int_eq_self)

lemma ready_ops_ex: "ready ops_ex"
  by (simp add: ops_ex_def ready_def rank_def pivots_ok_def)

lemma ops_ex_constructed: "imfreq_ops_2d_new lib_ex (Val 10) (Val (1 / 100000)) = ops_ex"
  by (simp add: imfreq_ops_2d_new_def lib_ex_def ops_ex_def asize_def int_of_long_def)

lemma rank_ops_ex: "rank ops_ex = 2"
  by (simp add: ops_ex_def rank_def)

lemma asize_div_leading:
  assumes "shape a \<noteq> []" "0 < shape a ! 0"
  shows "nat (int (asize a) div int (shape a ! 0)) = prod_list (tl (shape a))"
proof -
  obtain d ds where s: "shape a = d # ds"
    using assms(1) by (cases "shape a") auto
  with assms(2) have "0 < d" by simp
  then show ?thesis
    by (simp add: asize_def s flip: of_nat_mult zdiv_int)
qed

lemma prod_list_leading:
  "shape a \<noteq> [] \<Longrightarrow> shape a ! 0 * prod_list (tl (shape a)) = asize a"
  by (cases "shape a") (auto simp: asize_def)

lemma leading_tl: "s \<noteq> [] \<Longrightarrow> (s ! 0) # tl s = s"
  by (cases s) auto

section \<open>Properties: shape check of the transforms\<close>

text \<open>
  C3. When the leading extent of the argument differs from the rank of the operator,
  \<^verbatim>\<open>vals2coefs\<close> and \<^verbatim>\<open>coefs2vals\<close> throw the runtime error of the shape check; no
  array, truncated or padded, is returned.
\<close>

theorem shape_mismatch_rejected:
  "(rank m \<noteq> int (shape g ! 0) \<longrightarrow>
      vals2coefs m g = Inl (Runtime_error ''First dim of g != # DLR imaginary frequency nodes.''))
   \<and> (rank m \<noteq> int (shape gc ! 0) \<longrightarrow>
      coefs2vals promote m gc = Inl (Runtime_error ''First dim of gc != DLR rank r.''))"
  by (simp add: vals2coefs_def coefs2vals_def rank_def r_long_def)

theorem shape_mismatch_rejected_witness:
  "rank ops_ex \<noteq> int (shape \<lparr>shape = [3], layout = C_layout, data = [1, 2, 3 :: complex]\<rparr> ! 0)
   \<and> vals2coefs ops_ex \<lparr>shape = [3], layout = C_layout, data = [1, 2, 3]\<rparr>
       = Inl (Runtime_error ''First dim of g != # DLR imaginary frequency nodes.'')
   \<and> rank ops_ex \<noteq> int (shape \<lparr>shape = [1, 2], layout = C_layout, data = [1, 2 :: real]\<rparr> ! 0)
   \<and> coefs2vals complex_of_real ops_ex \<lparr>shape = [1, 2], layout = C_layout, data = [1, 2]\<rparr>
       = Inl (Runtime_error ''First dim of gc != DLR rank r.'')"
  using shape_mismatch_rejected [of ops_ex
      "\<lparr>shape = [3], layout = C_layout, data = [1, 2, 3 :: complex]\<rparr>"
      "\<lparr>shape = [1, 2], layout = C_layout, data = [1, 2 :: real]\<rparr>" complex_of_real]
  by (simp add: rank_def ops_ex_def)

section \<open>Properties: scalar promotion\<close>

text \<open>
  C8. For a ready operator with a complex matrix and a real coefficient array whose leading
  extent is the rank, \<^verbatim>\<open>coefs2vals\<close> returns a complex array of the shape of the argument.
\<close>

theorem coefs2vals_promotes:
  fixes m :: "complex imfreq_ops_2d" and gc :: "real ndarray"
  assumes "ready m" and "wf_array gc" and "rank m = int (shape gc ! 0)"
  shows "\<exists>out. coefs2vals complex_of_real m gc = Inr out \<and> shape out = shape gc
           \<and> layout out = layout gc \<and> length (data out) = asize gc"
proof -
  let ?r = "shape gc ! 0"
  let ?n = "prod_list (tl (shape gc))"
  from assms have ne: "shape gc \<noteq> []" and r: "r_long m = int ?r" and pos: "0 < ?r"
    and e0: "extent0 (cf2if m) = ?r" and e1: "extent1 (cf2if m) = ?r"
    by (auto simp: ready_def wf_array_def rank_def r_long_def)
  have n: "nat (int (asize gc) div int ?r) = ?n"
    using asize_div_leading [OF ne pos] .
  have sz: "?r * ?n = asize gc"
    using prod_list_leading [OF ne] .
  have rs1: "reshape gc [?r, ?n] = Inr (gc\<lparr>shape := [?r, ?n]\<rparr>)"
    by (simp add: reshape_def sz)
  have rs2: "reshape \<lparr>shape = [?r, ?n], layout = L, data = xs\<rparr> (?r # tl (shape gc))
               = Inr \<lparr>shape = shape gc, layout = L, data = xs\<rparr>" for L and xs :: "complex list"
    using sz by (simp add: reshape_def asize_def leading_tl [OF ne])
  show ?thesis
    using pos by (simp add: coefs2vals_def r n rs1 matmul_def e0 e1 rs2 sz)
qed

theorem coefs2vals_promotes_witness:
  "ready ops_ex \<and> wf_array \<lparr>shape = [2, 3], layout = C_layout, data = [1, 2, 3, 4, 5, 6 :: real]\<rparr>
   \<and> rank ops_ex = int (shape \<lparr>shape = [2, 3], layout = C_layout, data = [1, 2, 3, 4, 5, 6 :: real]\<rparr> ! 0)
   \<and> (\<exists>out. coefs2vals complex_of_real ops_ex
                 \<lparr>shape = [2, 3], layout = C_layout, data = [1, 2, 3, 4, 5, 6]\<rparr> = Inr out
            \<and> shape out = [2, 3])"
proof -
  let ?gc = "\<lparr>shape = [2, 3], layout = C_layout, data = [1, 2, 3, 4, 5, 6 :: real]\<rparr>"
  have w: "wf_array ?gc" by (simp add: wf_array_def asize_def)
  have r: "rank ops_ex = int (shape ?gc ! 0)" by (simp add: rank_ops_ex)
  from coefs2vals_promotes [OF ready_ops_ex w r]
  obtain out where "coefs2vals complex_of_real ops_ex ?gc = Inr out" "shape out = shape ?gc"
    by blast
  with ready_ops_ex w r show ?thesis by auto
qed

section \<open>Properties: the constructor from fields\<close>

text \<open>
  C9. The constructor from fields sets the rank to the number of columns of the matrix it is
  given (for a number of columns that an \<^verbatim>\<open>int\<close> holds), whatever the lengths of the
  other arguments. It stores its arguments as they are: nothing is selected or factorised.
  The tolerance is left indeterminate, and the result does not depend on the parameter
  \<^verbatim>\<open>eps\<close>.
\<close>

theorem fields_constructor:
  "(extent1 c < 2 ^ 31 \<longrightarrow> rank (imfreq_ops_2d_fields lam ep rf nodes c f p) = int (extent1 c))
   \<and> get_rfnodes (imfreq_ops_2d_fields lam ep rf nodes c f p) = rf
   \<and> get_ifnodes (imfreq_ops_2d_fields lam ep rf nodes c f p) = nodes
   \<and> get_cf2if (imfreq_ops_2d_fields lam ep rf nodes c f p) = c
   \<and> get_if2cf_lu (imfreq_ops_2d_fields lam ep rf nodes c f p) = f
   \<and> get_if2cf_piv (imfreq_ops_2d_fields lam ep rf nodes c f p) = p
   \<and> lambda (imfreq_ops_2d_fields lam ep rf nodes c f p) = lam
   \<and> eps (imfreq_ops_2d_fields lam ep rf nodes c f p) = Indeterminate
   \<and> imfreq_ops_2d_fields lam ep rf nodes c f p = imfreq_ops_2d_fields lam ep' rf nodes c f p"
  by (simp add: imfreq_ops_2d_fields_def rank_def get_rfnodes_def get_ifnodes_def get_cf2if_def
      get_if2cf_lu_def get_if2cf_piv_def lambda_def eps_def int_of_long_small)

theorem fields_constructor_witness:
  "extent1 \<lparr>extent0 = 1, extent1 = 1, fdata = [5 :: complex]\<rparr> < 2 ^ 31
   \<and> rank (imfreq_ops_2d_fields (Val 10) (Val (1 / 100000)) [1, 2, 3]
        \<lparr>shape = [2, 2], layout = C_layout, data = [0, 0, 1, - 1]\<rparr>
        \<lparr>extent0 = 1, extent1 = 1, fdata = [5 :: complex]\<rparr>
        \<lparr>extent0 = 1, extent1 = 1, fdata = [5]\<rparr> [1]) = 1
   \<and> eps (imfreq_ops_2d_fields (Val 10) (Val (1 / 100000)) [1, 2, 3]
        \<lparr>shape = [2, 2], layout = C_layout, data = [0, 0, 1, - 1]\<rparr>
        \<lparr>extent0 = 1, extent1 = 1, fdata = [5 :: complex]\<rparr>
        \<lparr>extent0 = 1, extent1 = 1, fdata = [5]\<rparr> [1]) = Indeterminate"
  using fields_constructor [of "\<lparr>extent0 = 1, extent1 = 1, fdata = [5 :: complex]\<rparr>"
      "Val 10" "Val (1 / 100000)" "[1, 2, 3]"
      "\<lparr>shape = [2, 2], layout = C_layout, data = [0, 0, 1, - 1]\<rparr>"
      "\<lparr>extent0 = 1, extent1 = 1, fdata = [5]\<rparr>" "[1]"]
  by simp

section \<open>Properties: point evaluation\<close>

text \<open>
  C10. For a coefficient array of rank one whose extent is the rank of the operator,
  \<^verbatim>\<open>coefs2eval\<close> returns the complex number zero, whatever the coefficients and the pair of
  Matsubara indices are.
\<close>

theorem coefs2eval_rank_one:
  "rank m = int (shape gc ! 0) \<Longrightarrow> length (shape gc) = 1 \<Longrightarrow>
     coefs2eval m gc n_ix m_ix = Inr (Eval_scalar 0)"
  by (simp add: coefs2eval_def rank_def r_long_def)

theorem coefs2eval_rank_one_witness:
  "rank ops_ex = int (shape \<lparr>shape = [2], layout = C_layout, data = [3, 4 :: real]\<rparr> ! 0)
   \<and> length (shape \<lparr>shape = [2], layout = C_layout, data = [3, 4 :: real]\<rparr>) = 1
   \<and> coefs2eval ops_ex \<lparr>shape = [2], layout = C_layout, data = [3, 4 :: real]\<rparr> 5 (- 7)
       = Inr (Eval_scalar 0)"
  using coefs2eval_rank_one [of ops_ex "\<lparr>shape = [2], layout = C_layout, data = [3, 4 :: real]\<rparr>" 5 "- 7"]
  by (simp add: rank_ops_ex)

section \<open>Properties: the shape invariant\<close>

text \<open>
  The first constructor takes the rank from \<^verbatim>\<open>size()\<close> of the node array, the number of
  all its elements. For an array of \<open>n\<close> pairs that is \<open>2 * n\<close>.
\<close>

lemma new_constructor_rank:
  assumes "shape (build_dlr2d_if lib lam ep) = [n, 2]" and "2 * n < 2 ^ 31"
  shows "rank (imfreq_ops_2d_new lib lam ep) = 2 * int n"
proof -
  have "sint (int_of_long (int (asize (build_dlr2d_if lib lam ep)))) = 2 * int n"
    using assms by (simp add: asize_def int_of_long_small)
  then show ?thesis
    by (simp add: imfreq_ops_2d_new_def rank_def Let_def split: prod.split)
qed

text \<open>
  C4, as stated, fails for the constructor from fields: it does not compare its arguments.
  Here the rank is 1, with three real frequencies and two node pairs.
\<close>

theorem fields_constructor_unchecked:
  "rank mixed_ops_ex = 1
   \<and> length (get_rfnodes mixed_ops_ex) = 3
   \<and> shape (get_ifnodes mixed_ops_ex) ! 0 = 2
   \<and> rank mixed_ops_ex \<noteq> int (length (get_rfnodes mixed_ops_ex))
   \<and> rank mixed_ops_ex \<noteq> int (shape (get_ifnodes mixed_ops_ex) ! 0)"
  by (simp add: mixed_ops_ex_def imfreq_ops_2d_fields_def rank_def get_rfnodes_def
      get_ifnodes_def int_of_long_def)

text \<open>
  C4, amended. An operator built by the constructor from fields has the number of columns
  of the given matrix as its rank (for a number of columns that an \<^verbatim>\<open>int\<close> holds). The
  rank is the length of the real-frequency basis, the number of node pairs, the number of
  rows of the matrix and the number of rows and of columns of the factors exactly when the
  arguments were given with these sizes.
\<close>

theorem fields_constructor_rank:
  assumes "extent1 c < 2 ^ 31"
  shows "rank (imfreq_ops_2d_fields lam ep rf nodes c f p)
           = int (extent1 (get_cf2if (imfreq_ops_2d_fields lam ep rf nodes c f p)))
    \<and> (rank (imfreq_ops_2d_fields lam ep rf nodes c f p)
           = int (length (get_rfnodes (imfreq_ops_2d_fields lam ep rf nodes c f p)))
         \<longleftrightarrow> length rf = extent1 c)
    \<and> (rank (imfreq_ops_2d_fields lam ep rf nodes c f p)
           = int (shape (get_ifnodes (imfreq_ops_2d_fields lam ep rf nodes c f p)) ! 0)
         \<longleftrightarrow> shape nodes ! 0 = extent1 c)
    \<and> (rank (imfreq_ops_2d_fields lam ep rf nodes c f p)
           = int (extent0 (get_cf2if (imfreq_ops_2d_fields lam ep rf nodes c f p)))
         \<longleftrightarrow> extent0 c = extent1 c)
    \<and> (rank (imfreq_ops_2d_fields lam ep rf nodes c f p)
           = int (extent0 (get_if2cf_lu (imfreq_ops_2d_fields lam ep rf nodes c f p)))
         \<longleftrightarrow> extent0 f = extent1 c)
    \<and> (rank (imfreq_ops_2d_fields lam ep rf nodes c f p)
           = int (extent1 (get_if2cf_lu (imfreq_ops_2d_fields lam ep rf nodes c f p)))
         \<longleftrightarrow> extent1 f = extent1 c)"
  using assms
  by (auto simp: imfreq_ops_2d_fields_def rank_def get_rfnodes_def get_ifnodes_def
      get_cf2if_def get_if2cf_lu_def int_of_long_small)

theorem fields_constructor_rank_witness:
  "extent1 (cf2if ops_ex) < 2 ^ 31
   \<and> rank (imfreq_ops_2d_fields (Val 10) (Val (1 / 100000)) (dlr_rf ops_ex) (dlr2d_if ops_ex)
        (cf2if ops_ex) (lu (if2cf ops_ex)) (piv (if2cf ops_ex))) = 2
   \<and> length (get_rfnodes (imfreq_ops_2d_fields (Val 10) (Val (1 / 100000)) (dlr_rf ops_ex)
        (dlr2d_if ops_ex) (cf2if ops_ex) (lu (if2cf ops_ex)) (piv (if2cf ops_ex)))) = 2"
  using fields_constructor_rank [of "cf2if ops_ex" "Val 10" "Val (1 / 100000)" "dlr_rf ops_ex"
      "dlr2d_if ops_ex" "lu (if2cf ops_ex)" "piv (if2cf ops_ex)"]
  by (simp add: ops_ex_def get_cf2if_def get_rfnodes_def imfreq_ops_2d_fields_def)

section \<open>Properties: persistence\<close>

lemma h5_read_h5_write:
  "h5_read (h5_write fg name m) name =
     ([''lambda'', ''eps'', ''rf'', ''if'', ''cf2if'', ''if2cf_lu'', ''if2cf_piv''],
      Inr (imfreq_ops_2d_fields (lambda m) (eps m) (get_rfnodes m) (get_ifnodes m) (get_cf2if m)
             (get_if2cf_lu m) (get_if2cf_piv m)))"
  by (simp add: h5_read_def h5_write_def write_hdf5_format_as_string_def h5_write_dataset_def
      assert_hdf5_format_as_string_def read_hdf5_format_def h5_read_double_def
      h5_read_vector_double_def h5_read_array_int_def h5_read_fmatrix_def h5_read_vector_int_def)

lemma ready_rank_fits: "ready m \<Longrightarrow> int_of_long (int (extent1 (cf2if m))) = r_m m"
  by (simp add: ready_def rank_def int_of_long_def)

text \<open>
  Writing a ready operator and reading it back restores every member but the tolerance;
  so do \<^verbatim>\<open>serialize\<close> and \<^verbatim>\<open>deserialize\<close>, which leave the tolerance of the target as
  it was. The transforms do not read the tolerance.
\<close>

lemma h5_roundtrip_ready:
  assumes "ready m"
  shows "snd (h5_read (h5_write fg name m) name) = Inr (m\<lparr>eps_m := Indeterminate\<rparr>)"
  using ready_rank_fits [OF assms]
  by (simp add: h5_read_h5_write imfreq_ops_2d_fields_def lambda_def get_rfnodes_def
      get_ifnodes_def get_cf2if_def get_if2cf_lu_def get_if2cf_piv_def)

lemma deserialize_serialize:
  "deserialize (serialize m) t = Some (m\<lparr>eps_m := eps_m t\<rparr>)"
  by (simp add: deserialize_def serialize_def)

lemma r_long_eps: "r_long (m\<lparr>eps_m := e\<rparr>) = r_long m"
  by (simp add: r_long_def)

lemma vals2coefs_eps_irrelevant: "vals2coefs (m\<lparr>eps_m := e\<rparr>) g = vals2coefs m g"
  by (simp add: vals2coefs_def r_long_eps Let_def cong: if_cong sum.case_cong)

lemma coefs2vals_eps_irrelevant: "coefs2vals pr (m\<lparr>eps_m := e\<rparr>) gc = coefs2vals pr m gc"
  by (simp add: coefs2vals_def r_long_eps cong: if_cong sum.case_cong)

text \<open>
  C5. The operator that the first constructor builds for the tolerance \<open>1e-5\<close> has this
  tolerance. After \<^verbatim>\<open>h5_write\<close> and \<^verbatim>\<open>h5_read\<close> the tolerance is indeterminate: the value
  read from the file goes to the parameter \<^verbatim>\<open>eps\<close> of the constructor, which does not use
  it. After \<^verbatim>\<open>serialize\<close> and \<^verbatim>\<open>deserialize\<close> into a default-constructed operator it is
  indeterminate as well.
\<close>

theorem h5_roundtrip_loses_eps:
  "eps (imfreq_ops_2d_new lib_ex (Val 10) (Val (1 / 100000))) = Val (1 / 100000)
   \<and> map_sum id eps
        (snd (h5_read (h5_write Map.empty ''ifops''
                        (imfreq_ops_2d_new lib_ex (Val 10) (Val (1 / 100000)))) ''ifops''))
       = Inr Indeterminate
   \<and> map_option eps
        (deserialize (serialize (imfreq_ops_2d_new lib_ex (Val 10) (Val (1 / 100000))))
           (imfreq_ops_2d_default 0))
       = Some Indeterminate"
  by (simp add: ops_ex_constructed h5_read_h5_write deserialize_serialize
      imfreq_ops_2d_fields_def imfreq_ops_2d_default_def eps_def ops_ex_def)

text \<open>
  C6, as stated, fails for a record without a tag: the check is called with
  \<^verbatim>\<open>ignore_if_absent = true\<close>, so the record is read, all seven datasets of it.
\<close>

theorem untagged_record_accepted:
  "read_hdf5_format untagged_group_ex \<noteq> hdf5_format
   \<and> h5_read untagged_file_ex ''ifops'' =
       ([''lambda'', ''eps'', ''rf'', ''if'', ''cf2if'', ''if2cf_lu'', ''if2cf_piv''],
        Inr (imfreq_ops_2d_fields (Val 10) (Val (1 / 100000)) [1]
               \<lparr>shape = [1, 2], layout = C_layout, data = [0, 0]\<rparr>
               \<lparr>extent0 = 1, extent1 = 1, fdata = [5]\<rparr>
               \<lparr>extent0 = 1, extent1 = 1, fdata = [5]\<rparr> [1]))"
  by (simp add: h5_read_def untagged_file_ex_def untagged_group_ex_def
      assert_hdf5_format_as_string_def read_hdf5_format_def hdf5_format_def h5_read_double_def
      h5_read_vector_double_def h5_read_array_int_def h5_read_fmatrix_def h5_read_vector_int_def)

lemma h5_read_dataset_errors:
  "h5_read_double gr n \<noteq> Inl (Format_mismatch a b)"
  "h5_read_vector_double gr n \<noteq> Inl (Format_mismatch a b)"
  "h5_read_array_int gr n \<noteq> Inl (Format_mismatch a b)"
  "h5_read_fmatrix gr n \<noteq> Inl (Format_mismatch a b)"
  "h5_read_vector_int gr n \<noteq> Inl (Format_mismatch a b)"
  by (simp_all add: h5_read_double_def h5_read_vector_double_def h5_read_array_int_def
      h5_read_fmatrix_def h5_read_vector_int_def split: option.split h5_value.split)

text \<open>
  C6, amended. \<^verbatim>\<open>h5_read\<close> checks the format tag of the group first. A record with a tag
  that is not the expected one is rejected with the format mismatch before any dataset is
  read; a record without a tag, or with the expected one, is never rejected for its format.
\<close>

theorem format_tag_checked_first:
  assumes "fg name = Some gr"
  shows "(read_hdf5_format gr \<noteq> [] \<and> read_hdf5_format gr \<noteq> hdf5_format \<longrightarrow>
            h5_read fg name = ([], Inl (Format_mismatch (read_hdf5_format gr) hdf5_format)))
         \<and> (read_hdf5_format gr = [] \<or> read_hdf5_format gr = hdf5_format \<longrightarrow>
            snd (h5_read fg name) \<noteq> Inl (Format_mismatch found expected))"
  using assms
  by (auto simp: h5_read_def assert_hdf5_format_as_string_def hdf5_format_def Let_def
      h5_read_dataset_errors split: sum.splits)

theorem format_tag_checked_first_witness:
  "mistagged_file_ex ''ifops'' = Some (untagged_group_ex\<lparr>format_attr := Some ''cppdlr::imtime_ops''\<rparr>)
   \<and> h5_read mistagged_file_ex ''ifops'' = ([], Inl (Format_mismatch ''cppdlr::imtime_ops'' hdf5_format))"
  using format_tag_checked_first [of mistagged_file_ex "''ifops''"
      "untagged_group_ex\<lparr>format_attr := Some ''cppdlr::imtime_ops''\<rparr>"]
  by (simp add: mistagged_file_ex_def read_hdf5_format_def hdf5_format_def)

subsection \<open>Offsets and multi-indices\<close>

lemma valid_index_Cons:
  "valid_index (d # ds) idx \<longleftrightarrow> (\<exists>i js. idx = i # js \<and> i < d \<and> valid_index ds js)"
  by (cases idx) (auto simp: valid_index_def)

lemma valid_index_Nil [simp]: "valid_index [] idx \<longleftrightarrow> idx = []"
  by (simp add: valid_index_def)

lemma ravel_F_less: "valid_index s idx \<Longrightarrow> ravel_F s idx < prod_list s"
proof (induction s arbitrary: idx)
  case Nil
  then show ?case by simp
next
  case (Cons d ds)
  then obtain i js where idx: "idx = i # js" and i: "i < d" and js: "valid_index ds js"
    by (auto simp: valid_index_Cons)
  from Cons.IH [OF js] have "Suc (ravel_F ds js) \<le> prod_list ds" by simp
  then have "d * Suc (ravel_F ds js) \<le> d * prod_list ds"
    by (rule mult_le_mono2)
  with i show ?case by (simp add: idx)
qed

lemma ravel_C_less: "valid_index s idx \<Longrightarrow> ravel_C s idx < prod_list s"
proof (induction s arbitrary: idx)
  case Nil
  then show ?case by simp
next
  case (Cons d ds)
  then obtain i js where idx: "idx = i # js" and i: "i < d" and js: "valid_index ds js"
    by (auto simp: valid_index_Cons)
  from i have "Suc i * prod_list ds \<le> d * prod_list ds"
    by (intro mult_le_mono1) simp
  with Cons.IH [OF js] show ?case by (simp add: idx)
qed

lemma unravel_F_ravel_F: "valid_index s idx \<Longrightarrow> unravel_F s (ravel_F s idx) = idx"
proof (induction s arbitrary: idx)
  case Nil
  then show ?case by simp
next
  case (Cons d ds)
  then obtain i js where idx: "idx = i # js" and i: "i < d" and js: "valid_index ds js"
    by (auto simp: valid_index_Cons)
  with Cons.IH [OF js] show ?case by simp
qed

lemma unravel_C_ravel_C: "valid_index s idx \<Longrightarrow> unravel_C s (ravel_C s idx) = idx"
proof (induction s arbitrary: idx)
  case Nil
  then show ?case by simp
next
  case (Cons d ds)
  then obtain i js where idx: "idx = i # js" and i: "i < d" and js: "valid_index ds js"
    by (auto simp: valid_index_Cons)
  from ravel_C_less [OF js] Cons.IH [OF js] show ?case by (simp add: idx)
qed

lemma unravel_F_valid: "k < prod_list s \<Longrightarrow> valid_index s (unravel_F s k)"
proof (induction s arbitrary: k)
  case Nil
  then show ?case by simp
next
  case (Cons d ds)
  then have k: "k < d * prod_list ds" by simp
  then have d: "0 < d" by (cases d) auto
  from k have "k div d < prod_list ds"
    by (simp add: less_mult_imp_div_less mult.commute)
  with Cons.IH d show ?case by (simp add: valid_index_Cons)
qed

lemma unravel_C_valid: "k < prod_list s \<Longrightarrow> valid_index s (unravel_C s k)"
proof (induction s arbitrary: k)
  case Nil
  then show ?case by simp
next
  case (Cons d ds)
  then have k: "k < d * prod_list ds" by simp
  then have p: "0 < prod_list ds" by (cases "prod_list ds") auto
  from k have "k div prod_list ds < d"
    by (simp add: less_mult_imp_div_less)
  with Cons.IH p show ?case by (simp add: valid_index_Cons)
qed

lemma ravel_F_unravel_F: "k < prod_list s \<Longrightarrow> ravel_F s (unravel_F s k) = k"
proof (induction s arbitrary: k)
  case Nil
  then show ?case by simp
next
  case (Cons d ds)
  then have k: "k < d * prod_list ds" by simp
  then have "k div d < prod_list ds"
    by (simp add: less_mult_imp_div_less mult.commute)
  with Cons.IH show ?case by simp
qed

lemma ravel_C_unravel_C: "k < prod_list s \<Longrightarrow> ravel_C s (unravel_C s k) = k"
proof (induction s arbitrary: k)
  case Nil
  then show ?case by simp
next
  case (Cons d ds)
  then have k: "k < d * prod_list ds" by simp
  then have p: "0 < prod_list ds" by (cases "prod_list ds") auto
  with Cons.IH show ?case by simp
qed

lemma offset_less: "valid_index s idx \<Longrightarrow> offset L s idx < prod_list s"
  by (cases L) (simp_all add: offset_def ravel_C_less ravel_F_less)

lemma multi_index_offset: "valid_index s idx \<Longrightarrow> multi_index L s (offset L s idx) = idx"
  by (cases L) (simp_all add: offset_def multi_index_def unravel_C_ravel_C unravel_F_ravel_F)

lemma multi_index_valid: "k < prod_list s \<Longrightarrow> valid_index s (multi_index L s k)"
  by (cases L) (simp_all add: multi_index_def unravel_C_valid unravel_F_valid)

lemma offset_multi_index: "k < prod_list s \<Longrightarrow> offset L s (multi_index L s k) = k"
  by (cases L) (simp_all add: offset_def multi_index_def ravel_C_unravel_C ravel_F_unravel_F)

text \<open>Flattening the trailing axes: the offset in the array is the offset in the matrix view.\<close>

lemma offset_flatten:
  "offset L (r # ds) (i # js) = offset L [r, prod_list ds] [i, offset L ds js]"
  by (cases L) (simp_all add: offset_def)

lemma offset_rank_one: "offset L [r] [i] = i"
  by (cases L) (simp_all add: offset_def)

lemma multi_index_rank_one: "k < r \<Longrightarrow> multi_index L [r] k = [k]"
  by (cases L) (simp_all add: multi_index_def)

lemma elem_at_to_layout:
  assumes "valid_index (shape a) idx"
  shows "elem_at (to_layout L a) idx = elem_at a idx"
  using offset_less [OF assms, of L] multi_index_offset [OF assms, of L]
  by (simp add: elem_at_def to_layout_def asize_def)

subsection \<open>Buffers in columns\<close>

lemma nth_concat_uniform:
  assumes "\<forall>xs \<in> set xss. length xs = r" and "j < length xss" and "i < r"
  shows "concat xss ! (i + r * j) = xss ! j ! i"
  using assms
proof (induction xss arbitrary: j)
  case Nil
  then show ?case by simp
next
  case (Cons x xss)
  show ?case
  proof (cases j)
    case 0
    with Cons.prems show ?thesis by (simp add: nth_append)
  next
    case (Suc j')
    with Cons.prems have "concat xss ! (i + r * j') = xss ! j' ! i"
      by (intro Cons.IH) auto
    moreover have "length x = r" using Cons.prems by simp
    ultimately show ?thesis by (simp add: Suc nth_append)
  qed
qed

lemma length_concat_uniform:
  "\<forall>xs \<in> set xss. length xs = r \<Longrightarrow> length (concat xss) = r * length xss"
  by (induction xss) auto

lemma chunks_nth:
  assumes "j < n" and "length xs = r * n"
  shows "chunks r n xs ! j = map (\<lambda>i. xs ! (i + r * j)) [0..<r]"
proof -
  from assms(1) have "r * Suc j \<le> r * n" by (intro mult_le_mono2) simp
  then have le: "r * j + r \<le> length xs" using assms(2) by simp
  have "take r (drop (j * r) xs) = map (\<lambda>i. xs ! (i + r * j)) [0..<r]"
    using le by (intro nth_equalityI) (auto simp: ac_simps)
  with assms(1) show ?thesis by (simp add: chunks_def)
qed

lemma length_chunks [simp]: "length (chunks r n xs) = n"
  by (simp add: chunks_def)

subsection \<open>The solver keeps the length of a column\<close>

lemma length_swap_rows [simp]: "length (swap_rows i ip b) = length b"
  by (simp add: swap_rows_def)

lemma length_foldl_keep:
  "(\<And>c k. length (f c k) = length c) \<Longrightarrow> length (foldl f b ks) = length b"
  by (induction ks arbitrary: b) auto

lemma length_laswp [simp]: "length (laswp p b) = length b"
  unfolding laswp_def by (rule length_foldl_keep) simp

lemma length_lower_step [simp]: "length (lower_step A k b) = length b"
  by (simp add: lower_step_def)

lemma length_trsm_lower_unit [simp]: "length (trsm_lower_unit A b) = length b"
  unfolding trsm_lower_unit_def by (rule length_foldl_keep) simp

lemma length_upper_step [simp]: "length (upper_step A k b) = length b"
  by (simp add: upper_step_def Let_def)

lemma length_upper_sweep [simp]: "length (upper_sweep A k b) = length b"
  by (induction k arbitrary: b) auto

lemma length_trsm_upper [simp]: "length (trsm_upper A b) = length b"
  by (simp add: trsm_upper_def)

lemma length_getrs_col [simp]: "length (getrs_col A p b) = length b"
  by (simp add: getrs_col_def)

subsection \<open>What the transforms compute, element by element\<close>

lemma valid_index_leading:
  assumes "valid_index (shape a) (i # js)"
  shows "shape a \<noteq> []" and "i < shape a ! 0" and "valid_index (tl (shape a)) js"
    and "offset L (tl (shape a)) js < prod_list (tl (shape a))"
  using assms offset_less [of "tl (shape a)" js L]
  by (cases "shape a"; auto simp: valid_index_Cons)+

lemma data_column:
  "data (column a js) = map (\<lambda>i. elem_at a (i # js)) [0..<shape a ! 0]"
  by (simp add: column_def)

lemma chunks_lengths:
  assumes "length xs = r * n" and "c \<in> set (chunks r n xs)"
  shows "length c = r"
proof -
  from assms(2) obtain j where "j < n" and "c = chunks r n xs ! j"
    by (auto simp: in_set_conv_nth)
  with chunks_nth [OF _ assms(1)] show ?thesis by simp
qed

lemma vals2coefs_ready:
  fixes m :: "'a::{zero,minus,times,inverse} imfreq_ops_2d"
  assumes "ready m" and "wf_array g" and "rank m = int (shape g ! 0)"
  shows "\<exists>out. vals2coefs m g = Inr out \<and> shape out = shape g \<and> layout out = layout g
           \<and> length (data out) = asize g
           \<and> (\<forall>i js. valid_index (shape g) (i # js) \<longrightarrow>
                 elem_at out (i # js)
                   = getrs_col (lu (if2cf m)) (piv (if2cf m)) (data (column g js)) ! i)"
proof -
  let ?r = "shape g ! 0"
  let ?ds = "tl (shape g)"
  let ?n = "prod_list ?ds"
  let ?f = "getrs_col (lu (if2cf m)) (piv (if2cf m))"
  let ?gf = "to_layout F_layout g"
  let ?X = "concat (map ?f (chunks ?r ?n (data ?gf)))"
  let ?gf' = "\<lparr>shape = shape g, layout = F_layout, data = ?X\<rparr>"
  from assms have ne: "shape g \<noteq> []" and r: "r_long m = int ?r" and pos: "0 < ?r"
    and lu0: "extent0 (lu (if2cf m)) = ?r" and lu1: "extent1 (lu (if2cf m)) = ?r"
    and pv: "pivots_ok ?r (piv (if2cf m))" and len: "length (data g) = asize g"
    by (auto simp: ready_def wf_array_def rank_def r_long_def)
  have s: "shape g = ?r # ?ds"
    using leading_tl [OF ne] by simp
  have n: "nat (int (asize g) div int ?r) = ?n"
    using asize_div_leading [OF ne pos] .
  have sz: "?r * ?n = asize g"
    using prod_list_leading [OF ne] .
  have lgf: "length (data ?gf) = ?r * ?n"
    by (simp add: to_layout_def sz)
  have rs: "reshape ?gf [?r, ?n] = Inr (?gf\<lparr>shape := [?r, ?n]\<rparr>)"
    using sz by (simp add: reshape_def asize_def to_layout_def)
  have gs: "getrs (lu (if2cf m)) (?gf\<lparr>shape := [?r, ?n]\<rparr>) (piv (if2cf m))
              = Inr (?gf\<lparr>shape := [?r, ?n], data := ?X\<rparr>)"
    by (simp add: getrs_def lu0 lu1 pv to_layout_def)
  have v: "vals2coefs m g = Inr (to_layout (layout g) ?gf')"
    using pos by (simp add: vals2coefs_def r n rs gs Let_def) (simp add: to_layout_def)
  have lX: "length ?X = ?r * ?n"
  proof -
    have "\<forall>xs \<in> set (map ?f (chunks ?r ?n (data ?gf))). length xs = ?r"
      using chunks_lengths [OF lgf] by auto
    from length_concat_uniform [OF this] show ?thesis by simp
  qed
  have el: "elem_at (to_layout (layout g) ?gf') (i # js) = ?f (data (column g js)) ! i"
    if vi: "valid_index (shape g) (i # js)" for i js
  proof -
    let ?j = "ravel_F ?ds js"
    from valid_index_leading(2,3) [OF vi] valid_index_leading(4) [OF vi, where L = F_layout]
    have i: "i < ?r" and vj: "valid_index ?ds js" and j: "?j < ?n"
      by (simp_all add: offset_def)
    have ch: "chunks ?r ?n (data ?gf) ! ?j = data (column g js)"
    proof -
      have "data ?gf ! (k + ?r * ?j) = elem_at g (k # js)" if "k < ?r" for k
      proof -
        have vk: "valid_index (shape g) (k # js)"
          using that vj by (subst s) (simp add: valid_index_Cons)
        have "elem_at ?gf (k # js) = elem_at g (k # js)"
          using elem_at_to_layout [OF vk] .
        moreover have "offset F_layout (shape g) (k # js) = k + ?r * ?j"
          by (subst s) (simp add: offset_def)
        ultimately show ?thesis
          by (simp add: elem_at_def to_layout_def)
      qed
      then show ?thesis
        by (simp add: chunks_nth [OF j lgf] data_column)
    qed
    have "elem_at (to_layout (layout g) ?gf') (i # js) = elem_at ?gf' (i # js)"
      using elem_at_to_layout [of ?gf' "i # js"] vi by simp
    also have "\<dots> = ?X ! (i + ?r * ?j)"
      by (subst s) (simp add: elem_at_def offset_def)
    also have "\<dots> = map ?f (chunks ?r ?n (data ?gf)) ! ?j ! i"
      using chunks_lengths [OF lgf] j i by (intro nth_concat_uniform) auto
    also have "\<dots> = ?f (data (column g js)) ! i"
      using j by (simp add: ch)
    finally show ?thesis .
  qed
  show ?thesis
    using v el by (simp add: to_layout_def asize_def)
qed

lemma coefs2vals_ready:
  fixes m :: "'a::{zero,plus,times} imfreq_ops_2d"
  assumes "ready m" and "wf_array gc" and "rank m = int (shape gc ! 0)"
  shows "\<exists>out. coefs2vals pr m gc = Inr out \<and> shape out = shape gc \<and> layout out = layout gc
           \<and> length (data out) = asize gc
           \<and> (\<forall>i js. valid_index (shape gc) (i # js) \<longrightarrow>
                 elem_at out (i # js)
                   = foldl (\<lambda>acc l. acc + entry (cf2if m) i l * pr (elem_at gc (l # js))) 0
                       [0..<shape gc ! 0])"
proof -
  let ?r = "shape gc ! 0"
  let ?ds = "tl (shape gc)"
  let ?n = "prod_list ?ds"
  let ?L = "layout gc"
  let ?M = "\<lparr>shape = [?r, ?n], layout = ?L, data = map pr (data gc)\<rparr>"
  let ?Y = "map (\<lambda>p. let idx = multi_index ?L [?r, ?n] p
                       in dot (cf2if m) ?M (idx ! 0) (idx ! 1)) [0..<?r * ?n]"
  let ?out = "\<lparr>shape = shape gc, layout = ?L, data = ?Y\<rparr>"
  from assms have ne: "shape gc \<noteq> []" and r: "r_long m = int ?r" and pos: "0 < ?r"
    and e0: "extent0 (cf2if m) = ?r" and e1: "extent1 (cf2if m) = ?r"
    and len: "length (data gc) = asize gc"
    by (auto simp: ready_def wf_array_def rank_def r_long_def)
  have s: "shape gc = ?r # ?ds"
    using leading_tl [OF ne] by simp
  have n: "nat (int (asize gc) div int ?r) = ?n"
    using asize_div_leading [OF ne pos] .
  have sz: "?r * ?n = asize gc"
    using prod_list_leading [OF ne] .
  have rs1: "reshape gc [?r, ?n] = Inr (gc\<lparr>shape := [?r, ?n]\<rparr>)"
    by (simp add: reshape_def sz)
  have rs2: "reshape \<lparr>shape = [?r, ?n], layout = ?L, data = xs\<rparr> (?r # ?ds)
               = Inr \<lparr>shape = shape gc, layout = ?L, data = xs\<rparr>" for xs :: "'a list"
    using sz by (simp add: reshape_def asize_def leading_tl [OF ne])
  have v: "coefs2vals pr m gc = Inr ?out"
    using pos by (simp add: coefs2vals_def r n rs1 matmul_def e0 e1 rs2)
  have el: "elem_at ?out (i # js)
              = foldl (\<lambda>acc l. acc + entry (cf2if m) i l * pr (elem_at gc (l # js))) 0 [0..<?r]"
    if vi: "valid_index (shape gc) (i # js)" for i js
  proof -
    let ?j = "offset ?L ?ds js"
    from valid_index_leading(2,3) [OF vi] valid_index_leading(4) [OF vi, where L = ?L]
    have i: "i < ?r" and vj: "valid_index ?ds js" and j: "?j < ?n"
      by simp_all
    have fl: "offset ?L (shape gc) (k # js) = offset ?L [?r, ?n] [k, ?j]" for k
      by (subst s) (rule offset_flatten)
    have v2: "valid_index [?r, ?n] [k, ?j]" if "k < ?r" for k
      using that j by (simp add: valid_index_Cons)
    have "elem_at ?out (i # js) = ?Y ! offset ?L [?r, ?n] [i, ?j]"
      by (simp add: elem_at_def fl)
    also have "\<dots> = dot (cf2if m) ?M i ?j"
      using offset_less [OF v2 [OF i], of ?L] multi_index_offset [OF v2 [OF i], of ?L]
      by simp
    also have "\<dots> = foldl (\<lambda>acc l. acc + entry (cf2if m) i l * pr (elem_at gc (l # js))) 0 [0..<?r]"
      unfolding dot_def e1
    proof (rule foldl_cong [OF refl refl])
      fix acc l
      assume "l \<in> set [0..<?r]"
      then have l: "l < ?r" by simp
      from offset_less [OF v2 [OF l], of ?L] have "offset ?L [?r, ?n] [l, ?j] < length (data gc)"
        by (simp add: len flip: sz)
      then have "elem_at ?M [l, ?j] = pr (elem_at gc (l # js))"
        by (simp add: elem_at_def fl)
      then show "acc + entry (cf2if m) i l * elem_at ?M [l, ?j]
                   = acc + entry (cf2if m) i l * pr (elem_at gc (l # js))"
        by simp
    qed
    finally show ?thesis .
  qed
  show ?thesis
    using v el sz by simp
qed

section \<open>Properties: batch independence\<close>

lemma column_rank_one:
  assumes "shape c = [r]" and "length (data c) = r"
  shows "column c [] = c"
proof -
  have "map (\<lambda>i. data c ! i) [0..<r] = data c"
    using assms(2) by (auto intro: nth_equalityI)
  then show ?thesis
    using assms(1) by (simp add: column_def elem_at_def offset_rank_one)
qed

lemma wf_column: "wf_array (column a js)"
  by (simp add: wf_array_def column_def asize_def)

lemma column_eqI:
  assumes "shape col = [r]" and "layout col = layout out" and "length (data col) = r"
    and "shape out ! 0 = r" and "\<And>i. i < r \<Longrightarrow> elem_at col [i] = elem_at out (i # js)"
  shows "column out js = col"
proof -
  have "map (\<lambda>i. elem_at out (i # js)) [0..<r] = data col"
    using assms(1,3,5) by (auto intro!: nth_equalityI simp: elem_at_def offset_rank_one)
  with assms(1,2,4) show ?thesis
    by (simp add: column_def)
qed

lemma valid_index_column:
  assumes "shape a \<noteq> []" and "valid_index (tl (shape a)) js" and "i < shape a ! 0"
  shows "valid_index (shape a) (i # js)"
  using assms by (cases "shape a") (auto simp: valid_index_Cons)

text \<open>
  C7. For a ready operator and a batched array whose leading extent is the rank, every
  column of the result of \<^verbatim>\<open>vals2coefs\<close> (of \<^verbatim>\<open>coefs2vals\<close>) on the whole batch is the
  result of the same transform on that column alone. The scalar operations are arbitrary
  here: no law of arithmetic is used.
\<close>

theorem batch_independence:
  fixes m :: "'a::{zero,plus,minus,times,inverse} imfreq_ops_2d"
    and g :: "'a ndarray" and gc :: "'s ndarray"
  assumes "ready m"
  shows "(wf_array g \<and> rank m = int (shape g ! 0) \<and> valid_index (tl (shape g)) js \<longrightarrow>
            (\<exists>out col. vals2coefs m g = Inr out \<and> vals2coefs m (column g js) = Inr col
                \<and> column out js = col))
       \<and> (wf_array gc \<and> rank m = int (shape gc ! 0) \<and> valid_index (tl (shape gc)) ks \<longrightarrow>
            (\<exists>out col. coefs2vals pr m gc = Inr out \<and> coefs2vals pr m (column gc ks) = Inr col
                \<and> column out ks = col))"
proof (intro conjI impI; elim conjE)
  assume wf: "wf_array g" and r: "rank m = int (shape g ! 0)"
    and js: "valid_index (tl (shape g)) js"
  let ?r = "shape g ! 0"
  let ?c = "column g js"
  let ?f = "getrs_col (lu (if2cf m)) (piv (if2cf m))"
  from wf have ne: "shape g \<noteq> []" by (simp add: wf_array_def)
  from vals2coefs_ready [OF assms wf r] obtain out where
    out: "vals2coefs m g = Inr out" "shape out = shape g" "layout out = layout g"
    and el: "\<And>i js. valid_index (shape g) (i # js) \<Longrightarrow> elem_at out (i # js) = ?f (data (column g js)) ! i"
    by blast
  have sc: "shape ?c = [?r]" and lc: "length (data ?c) = ?r"
    by (simp_all add: column_def)
  have rc: "rank m = int (shape ?c ! 0)"
    using r by (simp add: column_def)
  from vals2coefs_ready [OF assms wf_column rc] obtain col where
    col: "vals2coefs m ?c = Inr col" "shape col = shape ?c" "layout col = layout ?c"
      "length (data col) = asize ?c"
    and elc: "\<And>i js. valid_index (shape ?c) (i # js) \<Longrightarrow> elem_at col (i # js) = ?f (data (column ?c js)) ! i"
    by blast
  have "column out js = col"
  proof (rule column_eqI [where r = ?r])
    show "shape col = [?r]" using col(2) sc by simp
    show "layout col = layout out" using col(3) out(3) by (simp add: column_def)
    show "length (data col) = ?r" using col(4) sc by (simp add: asize_def)
    show "shape out ! 0 = ?r" using out(2) by simp
    fix i assume i: "i < ?r"
    have "elem_at col [i] = ?f (data (column ?c [])) ! i"
      using i by (intro elc) (simp add: sc valid_index_Cons)
    also have "\<dots> = ?f (data ?c) ! i"
      by (simp add: column_rank_one [OF sc lc])
    also have "\<dots> = elem_at out (i # js)"
      using el [OF valid_index_column [OF ne js i]] by simp
    finally show "elem_at col [i] = elem_at out (i # js)" .
  qed
  with out(1) col(1)
  show "\<exists>out col. vals2coefs m g = Inr out \<and> vals2coefs m (column g js) = Inr col
          \<and> column out js = col"
    by blast
next
  assume wf: "wf_array gc" and r: "rank m = int (shape gc ! 0)"
    and ks: "valid_index (tl (shape gc)) ks"
  let ?r = "shape gc ! 0"
  let ?c = "column gc ks"
  from wf have ne: "shape gc \<noteq> []" by (simp add: wf_array_def)
  from coefs2vals_ready [OF assms wf r, of pr] obtain out where
    out: "coefs2vals pr m gc = Inr out" "shape out = shape gc" "layout out = layout gc"
    and el: "\<And>i js. valid_index (shape gc) (i # js) \<Longrightarrow> elem_at out (i # js)
          = foldl (\<lambda>acc l. acc + entry (cf2if m) i l * pr (elem_at gc (l # js))) 0 [0..<?r]"
    by blast
  have sc: "shape ?c = [?r]" and lc: "length (data ?c) = ?r"
    by (simp_all add: column_def)
  have rc: "rank m = int (shape ?c ! 0)"
    using r by (simp add: column_def)
  from coefs2vals_ready [OF assms wf_column rc, of pr] obtain col where
    col: "coefs2vals pr m ?c = Inr col" "shape col = shape ?c" "layout col = layout ?c"
      "length (data col) = asize ?c"
    and elc: "\<And>i js. valid_index (shape ?c) (i # js) \<Longrightarrow> elem_at col (i # js)
          = foldl (\<lambda>acc l. acc + entry (cf2if m) i l * pr (elem_at ?c (l # js))) 0 [0..<shape ?c ! 0]"
    by blast
  have "column out ks = col"
  proof (rule column_eqI [where r = ?r])
    show "shape col = [?r]" using col(2) sc by simp
    show "layout col = layout out" using col(3) out(3) by (simp add: column_def)
    show "length (data col) = ?r" using col(4) sc by (simp add: asize_def)
    show "shape out ! 0 = ?r" using out(2) by simp
    fix i assume i: "i < ?r"
    have "elem_at col [i]
            = foldl (\<lambda>acc l. acc + entry (cf2if m) i l * pr (elem_at ?c [l])) 0 [0..<?r]"
      using i elc [of i "[]"] by (simp add: sc valid_index_Cons)
    also have "\<dots> = foldl (\<lambda>acc l. acc + entry (cf2if m) i l * pr (elem_at gc (l # ks))) 0 [0..<?r]"
      by (rule foldl_cong [OF refl refl]) (simp add: elem_at_def [of ?c] sc offset_rank_one data_column)
    also have "\<dots> = elem_at out (i # ks)"
      using el [OF valid_index_column [OF ne ks i]] by simp
    finally show "elem_at col [i] = elem_at out (i # ks)" .
  qed
  with out(1) col(1)
  show "\<exists>out col. coefs2vals pr m gc = Inr out \<and> coefs2vals pr m (column gc ks) = Inr col
          \<and> column out ks = col"
    by blast
qed


theorem batch_independence_witness:
  "ready ops_ex
   \<and> wf_array \<lparr>shape = [2, 3], layout = C_layout, data = [1, 2, 3, 4, 5, 6 :: complex]\<rparr>
   \<and> rank ops_ex = int (shape \<lparr>shape = [2, 3], layout = C_layout, data = [1, 2, 3, 4, 5, 6 :: complex]\<rparr> ! 0)
   \<and> valid_index (tl (shape \<lparr>shape = [2, 3], layout = C_layout, data = [1, 2, 3, 4, 5, 6 :: complex]\<rparr>)) [1]
   \<and> (\<exists>out col.
         vals2coefs ops_ex \<lparr>shape = [2, 3], layout = C_layout, data = [1, 2, 3, 4, 5, 6]\<rparr> = Inr out
         \<and> vals2coefs ops_ex \<lparr>shape = [2], layout = C_layout, data = [2, 5]\<rparr> = Inr col
         \<and> column out [1] = col)
   \<and> (\<exists>out col.
         coefs2vals complex_of_real ops_ex
           \<lparr>shape = [2, 3], layout = C_layout, data = [1, 2, 3, 4, 5, 6]\<rparr> = Inr out
         \<and> coefs2vals complex_of_real ops_ex \<lparr>shape = [2], layout = C_layout, data = [2, 5]\<rparr> = Inr col
         \<and> column out [1] = col)"
proof -
  let ?g = "\<lparr>shape = [2, 3], layout = C_layout, data = [1, 2, 3, 4, 5, 6 :: complex]\<rparr>"
  let ?gc = "\<lparr>shape = [2, 3], layout = C_layout, data = [1, 2, 3, 4, 5, 6 :: real]\<rparr>"
  have w: "wf_array ?g" "wf_array ?gc"
    by (simp_all add: wf_array_def asize_def)
  have r: "rank ops_ex = int (shape ?g ! 0)" "rank ops_ex = int (shape ?gc ! 0)"
    by (simp_all add: rank_ops_ex)
  have v: "valid_index (tl (shape ?g)) [1]" "valid_index (tl (shape ?gc)) [1]"
    by (simp_all add: valid_index_def)
  have c: "column ?g [1] = \<lparr>shape = [2], layout = C_layout, data = [2, 5]\<rparr>"
    "column ?gc [1] = \<lparr>shape = [2], layout = C_layout, data = [2, 5]\<rparr>"
    by (simp_all add: column_def elem_at_def offset_def upt_rec)
  from batch_independence [OF ready_ops_ex, of ?g "[1]" ?gc "[1]" complex_of_real] w r v
  show ?thesis
    unfolding c using ready_ops_ex by blast
qed

lemma factors_of_ops_ex: "factors_of (lu (if2cf ops_ex)) (piv (if2cf ops_ex)) (cf2if ops_ex)"
  by (simp add: factors_of_def ops_ex_def entry_def matrix_column_def laswp_def swap_rows_def
      unit_lower_def upper_def upt_rec lessThan_Suc numeral_2_eq_2)

section \<open>Properties: the triangular solves\<close>

lemma lower_step_nth:
  fixes A :: "'a::ring fmatrix"
  assumes "i < length b"
  shows "lower_step A k b ! i = (if k < i then b ! i - b ! k * entry A i k else b ! i)"
  using assms by (simp add: lower_step_def)

lemma foldl_lower_step:
  fixes A :: "'a::comm_ring fmatrix"
  assumes "m \<le> length b"
  shows "length (foldl (\<lambda>c k. lower_step A k c) b [0..<m]) = length b \<and>
         (\<forall>i<length b. foldl (\<lambda>c k. lower_step A k c) b [0..<m] ! i
             + (\<Sum>k<min i m. entry A i k * foldl (\<lambda>c k. lower_step A k c) b [0..<m] ! k) = b ! i)"
  using assms
proof (induction m)
  case 0
  then show ?case by simp
next
  case (Suc m)
  let ?c = "foldl (\<lambda>c k. lower_step A k c) b [0..<m]"
  let ?c' = "lower_step A m ?c"
  from Suc have len: "length ?c = length b"
    and inv: "\<And>i. i < length b \<Longrightarrow> ?c ! i + (\<Sum>k<min i m. entry A i k * ?c ! k) = b ! i"
    and m: "m < length b"
    by auto
  have c': "foldl (\<lambda>c k. lower_step A k c) b [0..<Suc m] = ?c'"
    by simp
  have "?c' ! i + (\<Sum>k<min i (Suc m). entry A i k * ?c' ! k) = b ! i" if i: "i < length b" for i
  proof (cases "m < i")
    case True
    then have mn: "min i (Suc m) = Suc m" "min i m = m" by simp_all
    have keep: "?c' ! k = ?c ! k" if "k \<le> m" for k
      using that m len by (simp add: lower_step_nth)
    have s1: "(\<Sum>k<Suc m. entry A i k * ?c' ! k) = (\<Sum>k<m. entry A i k * ?c ! k) + entry A i m * ?c ! m"
      by (simp add: keep)
    have s2: "?c' ! i = ?c ! i - ?c ! m * entry A i m"
      using True i len by (simp add: lower_step_nth)
    have "?c' ! i + (\<Sum>k<Suc m. entry A i k * ?c' ! k)
            = (?c ! i - ?c ! m * entry A i m) + ((\<Sum>k<m. entry A i k * ?c ! k) + entry A i m * ?c ! m)"
      by (simp only: s1 s2)
    also have "\<dots> = ?c ! i + (\<Sum>k<m. entry A i k * ?c ! k)"
      by (simp add: algebra_simps)
    also have "\<dots> = b ! i"
      using inv [OF i] by (simp add: mn)
    finally show ?thesis
      by (simp only: mn)
  next
    case False
    then have mn: "min i (Suc m) = i" "min i m = i" by simp_all
    have keep: "?c' ! k = ?c ! k" if "k \<le> i" for k
      using that False i len by (simp add: lower_step_nth)
    show ?thesis
      using inv [OF i] by (simp add: mn keep)
  qed
  then show ?case
    unfolding c' using len by simp
qed

lemma trsm_lower_unit_solves:
  fixes A :: "'a::comm_ring fmatrix"
  assumes "i < length b"
  shows "trsm_lower_unit A b ! i + (\<Sum>k<i. entry A i k * trsm_lower_unit A b ! k) = b ! i"
  using foldl_lower_step [of "length b" b A] assms
  by (simp add: trsm_lower_unit_def)


lemma upper_step_nth:
  fixes A :: "'a::field fmatrix"
  assumes "i < length b"
  shows "upper_step A k b ! i =
           (if i < k then b ! i - b ! k / entry A k k * entry A i k
            else if i = k then b ! k / entry A k k else b ! i)"
  using assms by (simp add: upper_step_def Let_def)

lemma upper_sweep_solves:
  fixes A :: "'a::field fmatrix"
  assumes "m \<le> length c" and "\<forall>k<m. entry A k k \<noteq> 0"
    and "\<forall>i<length c. (if i < m then c ! i + (\<Sum>k = m..<length c. entry A i k * c ! k)
                          else (\<Sum>k = i..<length c. entry A i k * c ! k)) = y ! i"
    and "i < length c"
  shows "(\<Sum>k = i..<length c. entry A i k * upper_sweep A m c ! k) = y ! i"
  using assms
proof (induction m arbitrary: c)
  case 0
  then show ?case by simp
next
  case (Suc m)
  let ?n = "length c"
  let ?x = "c ! m / entry A m m"
  let ?c' = "upper_step A m c"
  from Suc.prems have m: "m < ?n" and nz: "entry A m m \<noteq> 0" by auto
  have pre: "(if j < Suc m then c ! j + (\<Sum>k = Suc m..<?n. entry A j k * c ! k)
              else (\<Sum>k = j..<?n. entry A j k * c ! k)) = y ! j" if "j < ?n" for j
    using Suc.prems(3) that by blast
  have above: "?c' ! k = c ! k" if "m < k" "k < ?n" for k
    using that by (simp add: upper_step_nth)
  have at_m: "?c' ! m = ?x"
    using m by (simp add: upper_step_nth)
  have tail: "(\<Sum>k = l..<?n. entry A j k * ?c' ! k) = (\<Sum>k = l..<?n. entry A j k * c ! k)"
    if "m < l" for l j
    using that by (intro sum.cong) (auto simp: above)
  have "(if j < m then ?c' ! j + (\<Sum>k = m..<length ?c'. entry A j k * ?c' ! k)
         else (\<Sum>k = j..<length ?c'. entry A j k * ?c' ! k)) = y ! j" if j: "j < length ?c'" for j
  proof -
    from j have jn: "j < ?n" by simp
    consider "j < m" | "j = m" | "m < j" by linarith
    then show ?thesis
    proof cases
      case 1
      have "?c' ! j + (\<Sum>k = m..<?n. entry A j k * ?c' ! k)
              = (c ! j - ?x * entry A j m) + (entry A j m * ?x + (\<Sum>k = Suc m..<?n. entry A j k * c ! k))"
        using 1 jn m by (simp add: sum.atLeast_Suc_lessThan upper_step_nth at_m tail)
      also have "\<dots> = c ! j + (\<Sum>k = Suc m..<?n. entry A j k * c ! k)"
        by (simp add: algebra_simps)
      also have "\<dots> = y ! j"
        using pre [OF jn] 1 by simp
      finally show ?thesis using 1 by simp
    next
      case 2
      have "(\<Sum>k = m..<?n. entry A m k * ?c' ! k)
              = entry A m m * ?x + (\<Sum>k = Suc m..<?n. entry A m k * c ! k)"
        using m by (simp add: sum.atLeast_Suc_lessThan at_m tail)
      also have "\<dots> = c ! m + (\<Sum>k = Suc m..<?n. entry A m k * c ! k)"
        using nz by simp
      also have "\<dots> = y ! m"
        using pre [OF m] by simp
      finally show ?thesis using 2 by simp
    next
      case 3
      then show ?thesis
        using pre [OF jn] by (simp add: tail)
    qed
  qed
  then have "(\<Sum>k = i..<length ?c'. entry A i k * upper_sweep A m ?c' ! k) = y ! i"
    using Suc.prems m by (intro Suc.IH) auto
  then show ?case by simp
qed

lemma trsm_upper_solves:
  fixes A :: "'a::field fmatrix"
  assumes "\<forall>k<length y. entry A k k \<noteq> 0" and "i < length y"
  shows "(\<Sum>k = i..<length y. entry A i k * trsm_upper A y ! k) = y ! i"
  unfolding trsm_upper_def
  using assms by (intro upper_sweep_solves) auto

section \<open>Properties: the row interchanges\<close>

lemma swap_rows_map:
  assumes "i < length xs" and "ip < length xs"
  shows "swap_rows i ip (map f xs) = map f (swap_rows i ip xs)"
  using assms by (simp add: swap_rows_def map_update)

lemma set_swap_rows:
  assumes "i < length xs" and "ip < length xs"
  shows "set (swap_rows i ip xs) = set xs"
  using assms by (simp add: swap_rows_def)

lemma foldl_swap_rows:
  assumes "\<forall>i \<in> set ks. i < length xs \<and> q i < length xs"
  shows "length (foldl (\<lambda>c i. swap_rows i (q i) c) xs ks) = length xs
       \<and> set (foldl (\<lambda>c i. swap_rows i (q i) c) xs ks) = set xs
       \<and> foldl (\<lambda>c i. swap_rows i (q i) c) (map f xs) ks
           = map f (foldl (\<lambda>c i. swap_rows i (q i) c) xs ks)"
  using assms
proof (induction ks arbitrary: xs)
  case Nil
  then show ?case by simp
next
  case (Cons k ks)
  let ?xs' = "swap_rows k (q k) xs"
  from Cons.prems have k: "k < length xs" "q k < length xs" by simp_all
  have "\<forall>i \<in> set ks. i < length ?xs' \<and> q i < length ?xs'"
    using Cons.prems by simp
  from Cons.IH [OF this] show ?case
    by (simp add: swap_rows_map [OF k] set_swap_rows [OF k])
qed

lemma pivots_ok_nth:
  assumes "pivots_ok n p" and "i < n"
  shows "nat (p ! i - 1) < n"
proof -
  from assms have "i < length (take n p)"
    by (simp add: pivots_ok_def)
  then have "take n p ! i \<in> set (take n p)"
    by (rule nth_mem)
  with assms(2) have "p ! i \<in> set (take n p)"
    by simp
  with assms(1) have "1 \<le> p ! i \<and> p ! i \<le> int n"
    by (simp add: pivots_ok_def list_all_iff)
  then show ?thesis by linarith
qed

text \<open>The interchanges permute the rows: row \<open>i\<close> of the result is row \<open>laswp p [0..<n] ! i\<close>.\<close>

lemma laswp_permutes:
  assumes "pivots_ok (length v) p"
  shows "laswp p v = map (\<lambda>k. v ! k) (laswp p [0..<length v])"
    and "set (laswp p [0..<length v]) = {..<length v}"
proof -
  let ?n = "length v"
  let ?sw = "\<lambda>c i. swap_rows i (nat (p ! i - 1)) c"
  have ok: "\<forall>i \<in> set [0..<?n]. i < length [0..<?n] \<and> nat (p ! i - 1) < length [0..<?n]"
    using pivots_ok_nth [OF assms] by simp
  note f = foldl_swap_rows [OF ok]
  have l: "laswp p [0..<?n] = foldl ?sw [0..<?n] [0..<?n]"
    by (simp only: laswp_def length_upt minus_nat.diff_0)
  have "laswp p (map (\<lambda>k. v ! k) [0..<?n]) = foldl ?sw (map (\<lambda>k. v ! k) [0..<?n]) [0..<?n]"
    by (simp only: laswp_def length_map length_upt minus_nat.diff_0)
  also have "\<dots> = map (\<lambda>k. v ! k) (foldl ?sw [0..<?n] [0..<?n])"
    using f [of "\<lambda>k. v ! k"] by blast
  finally show "laswp p v = map (\<lambda>k. v ! k) (laswp p [0..<?n])"
    by (simp only: l map_nth)
  have "set (foldl ?sw [0..<?n] [0..<?n]) = set [0..<?n]"
    using f [of id] by blast
  then show "set (laswp p [0..<?n]) = {..<?n}"
    by (simp only: l set_upt atLeast0LessThan)
qed

section \<open>Properties: the solve\<close>

lemma sum_unit_lower:
  fixes F :: "'a::comm_ring_1 fmatrix"
  assumes "i < n"
  shows "(\<Sum>k<n. unit_lower F i k * w k) = w i + (\<Sum>k<i. entry F i k * w k)"
proof -
  have "(\<Sum>k<n. unit_lower F i k * w k)
          = (\<Sum>k<n. (if k = i then w i else 0) + (if k < i then entry F i k * w k else 0))"
    by (intro sum.cong) (auto simp: unit_lower_def)
  also have "\<dots> = (\<Sum>k<n. if k = i then w i else 0)
                    + (\<Sum>k<n. if k < i then entry F i k * w k else 0)"
    by (rule sum.distrib)
  also have "(\<Sum>k<n. if k = i then w i else 0) = w i"
    using assms by simp
  also have "(\<Sum>k<n. if k < i then entry F i k * w k else 0) = (\<Sum>k<i. entry F i k * w k)"
    using assms by (intro sum.mono_neutral_cong_right) auto
  finally show ?thesis .
qed

lemma sum_upper:
  fixes F :: "'a::comm_ring_1 fmatrix"
  assumes "k < n"
  shows "(\<Sum>j<n. upper F k j * d j) = (\<Sum>j = k..<n. entry F k j * d j)"
proof -
  have "(\<Sum>j<n. upper F k j * d j) = (\<Sum>j<n. if k \<le> j then entry F k j * d j else 0)"
    by (intro sum.cong) (auto simp: upper_def)
  also have "\<dots> = (\<Sum>j = k..<n. entry F k j * d j)"
    by (intro sum.mono_neutral_cong_right) auto
  finally show ?thesis .
qed

lemma factors_of_nth:
  assumes "factors_of F p A" and "extent0 A = n" and "extent1 A = n" and "i < n" and "j < n"
  shows "entry F i i \<noteq> 0"
    and "laswp p (matrix_column A j) ! i = (\<Sum>k<n. unit_lower F i k * upper F k j)"
  using assms by (simp_all add: factors_of_def list_all_iff)

text \<open>For factors of \<open>A\<close>, the solve of one column returns \<open>x\<close> with \<open>A x = b\<close>.\<close>

lemma getrs_col_solves:
  fixes A :: "'a::field fmatrix"
  assumes fac: "factors_of F p A" and e0: "extent0 A = n" and e1: "extent1 A = n"
    and piv: "pivots_ok n p" and b: "length b = n" and i: "i < n"
  shows "(\<Sum>j<n. entry A i j * getrs_col F p b ! j) = b ! i"
proof -
  let ?pb = "laswp p b"
  let ?y = "trsm_lower_unit F ?pb"
  let ?x = "trsm_upper F ?y"
  let ?perm = "laswp p [0..<n]"
  have x: "getrs_col F p b = ?x"
    by (simp add: getrs_col_def)
  have lower: "(\<Sum>k<n. unit_lower F l k * ?y ! k) = ?pb ! l" if "l < n" for l
    using that trsm_lower_unit_solves [of l ?pb F] by (simp add: sum_unit_lower b)
  have nz: "\<forall>k<length ?y. entry F k k \<noteq> 0"
    using factors_of_nth(1) [OF fac e0 e1] by (simp add: b)
  have upper: "(\<Sum>j<n. upper F k j * ?x ! j) = ?y ! k" if "k < n" for k
    using that trsm_upper_solves [OF nz, of k] by (simp add: sum_upper b)
  have lux: "(\<Sum>j<n. (\<Sum>k<n. unit_lower F l k * upper F k j) * ?x ! j) = ?pb ! l" if l: "l < n" for l
  proof -
    have "(\<Sum>j<n. (\<Sum>k<n. unit_lower F l k * upper F k j) * ?x ! j)
            = (\<Sum>j<n. \<Sum>k<n. unit_lower F l k * (upper F k j * ?x ! j))"
      by (simp add: sum_distrib_right mult.assoc)
    also have "\<dots> = (\<Sum>k<n. \<Sum>j<n. unit_lower F l k * (upper F k j * ?x ! j))"
      by (rule sum.swap)
    also have "\<dots> = (\<Sum>k<n. unit_lower F l k * (\<Sum>j<n. upper F k j * ?x ! j))"
      by (simp add: sum_distrib_left)
    also have "\<dots> = (\<Sum>k<n. unit_lower F l k * ?y ! k)"
      by (intro sum.cong) (auto simp: upper)
    finally show ?thesis by (simp add: lower [OF l])
  qed
  have pn: "pivots_ok (length b) p" "pivots_ok (length (matrix_column A j)) p" for j
    using piv by (simp_all add: b matrix_column_def e0)
  have pb: "?pb ! l = b ! (?perm ! l)" if "l < n" for l
    using that laswp_permutes(1) [OF pn(1)] by (simp add: b)
  have pa: "laswp p (matrix_column A j) ! l = entry A (?perm ! l) j" if "l < n" "j < n" for l j
  proof -
    have lp: "length ?perm = n" by simp
    have "?perm ! l \<in> set ?perm" using that lp by (metis nth_mem)
    then have "?perm ! l < n"
      using laswp_permutes(2) [OF pn(1)] by (simp add: b)
    then have "matrix_column A j ! (?perm ! l) = entry A (?perm ! l) j"
      by (simp add: matrix_column_def e0)
    moreover have "laswp p (matrix_column A j) ! l = matrix_column A j ! (?perm ! l)"
      using that(1) laswp_permutes(1) [OF pn(2), of j] by (simp add: matrix_column_def e0)
    ultimately show ?thesis by simp
  qed
  have rows: "(\<Sum>j<n. entry A (?perm ! l) j * ?x ! j) = b ! (?perm ! l)" if l: "l < n" for l
  proof -
    have "(\<Sum>j<n. entry A (?perm ! l) j * ?x ! j)
            = (\<Sum>j<n. (\<Sum>k<n. unit_lower F l k * upper F k j) * ?x ! j)"
      using l by (intro sum.cong) (auto simp: factors_of_nth(2) [OF fac e0 e1, symmetric] pa)
    then show ?thesis
      by (simp add: lux [OF l] pb [OF l])
  qed
  have "i \<in> set ?perm"
    using i laswp_permutes(2) [OF pn(1)] by (simp add: b)
  then obtain l where "l < n" and "?perm ! l = i"
    by (auto simp: in_set_conv_nth)
  with rows [of l] show ?thesis
    by (simp add: x)
qed


text \<open>The matrix is injective, so that solution is the only one.\<close>

lemma unit_lower_kernel:
  fixes F :: "'a::comm_ring_1 fmatrix"
  assumes "\<forall>l<n. (\<Sum>k<n. unit_lower F l k * w k) = 0" and "l < n"
  shows "w l = 0"
  using assms(2)
proof (induction l rule: less_induct)
  case (less l)
  have "w l + (\<Sum>k<l. entry F l k * w k) = 0"
    using assms(1) less.prems by (simp add: sum_unit_lower)
  moreover have "(\<Sum>k<l. entry F l k * w k) = 0"
    using less by (intro sum.neutral) auto
  ultimately show ?case by simp
qed

lemma upper_kernel:
  fixes F :: "'a::field fmatrix"
  assumes "\<forall>k<n. (\<Sum>j<n. upper F k j * d j) = 0" and "\<forall>k<n. entry F k k \<noteq> 0" and "k < n"
  shows "d k = 0"
  using assms(3)
proof (induction "n - k" arbitrary: k rule: less_induct)
  case less
  have "(\<Sum>j = k..<n. entry F k j * d j) = 0"
    using assms(1) less.prems by (simp add: sum_upper)
  then have "entry F k k * d k + (\<Sum>j = Suc k..<n. entry F k j * d j) = 0"
    using less.prems by (simp add: sum.atLeast_Suc_lessThan)
  moreover have "(\<Sum>j = Suc k..<n. entry F k j * d j) = 0"
  proof (rule sum.neutral, rule ballI)
    fix j assume "j \<in> {Suc k..<n}"
    then have "n - j < n - k" and "j < n" by auto
    then show "entry F k j * d j = 0" using less.hyps by simp
  qed
  ultimately show ?case
    using assms(2) less.prems by simp
qed

lemma factors_kernel:
  fixes A :: "'a::field fmatrix"
  assumes fac: "factors_of F p A" and e0: "extent0 A = n" and e1: "extent1 A = n"
    and piv: "pivots_ok n p" and zero: "\<forall>i<n. (\<Sum>j<n. entry A i j * d j) = 0" and j: "j < n"
  shows "d j = 0"
proof -
  let ?perm = "laswp p [0..<n]"
  let ?w = "\<lambda>k. \<Sum>j<n. upper F k j * d j"
  have pn: "pivots_ok (length (matrix_column A j)) p" for j
    using piv by (simp add: matrix_column_def e0)
  have perm: "?perm ! l < n" if "l < n" for l
  proof -
    have "?perm ! l \<in> set ?perm" using that by (intro nth_mem) simp
    then show ?thesis
      using laswp_permutes(2) [OF pn, of 0] by (simp add: matrix_column_def e0)
  qed
  have pa: "entry A (?perm ! l) j = (\<Sum>k<n. unit_lower F l k * upper F k j)"
    if "l < n" "j < n" for l j
  proof -
    have "laswp p (matrix_column A j) ! l = matrix_column A j ! (?perm ! l)"
      using that(1) laswp_permutes(1) [OF pn, of j] by (simp add: matrix_column_def e0)
    then show ?thesis
      using perm [OF that(1)] factors_of_nth(2) [OF fac e0 e1 that]
      by (simp add: matrix_column_def e0)
  qed
  have "(\<Sum>k<n. unit_lower F l k * ?w k) = 0" if l: "l < n" for l
  proof -
    have "(\<Sum>k<n. unit_lower F l k * ?w k)
            = (\<Sum>k<n. \<Sum>j<n. unit_lower F l k * (upper F k j * d j))"
      by (simp add: sum_distrib_left)
    also have "\<dots> = (\<Sum>j<n. \<Sum>k<n. unit_lower F l k * (upper F k j * d j))"
      by (rule sum.swap)
    also have "\<dots> = (\<Sum>j<n. (\<Sum>k<n. unit_lower F l k * upper F k j) * d j)"
      by (simp add: sum_distrib_right mult.assoc)
    also have "\<dots> = (\<Sum>j<n. entry A (?perm ! l) j * d j)"
      using l by (intro sum.cong) (auto simp: pa)
    also have "\<dots> = 0"
      using zero perm [OF l] by simp
    finally show ?thesis .
  qed
  then have "\<forall>k<n. ?w k = 0"
    using unit_lower_kernel [of n F ?w] by blast
  moreover have "\<forall>k<n. entry F k k \<noteq> 0"
    using factors_of_nth(1) [OF fac e0 e1] by blast
  ultimately show ?thesis
    using upper_kernel [of n F d j] j by blast
qed

lemma getrs_col_unique:
  fixes A :: "'a::field fmatrix"
  assumes fac: "factors_of F p A" and e0: "extent0 A = n" and e1: "extent1 A = n"
    and piv: "pivots_ok n p" and b: "length b = n" and z: "length z = n"
    and sol: "\<forall>i<n. (\<Sum>j<n. entry A i j * z ! j) = b ! i"
  shows "z = getrs_col F p b"
proof (rule nth_equalityI)
  show "length z = length (getrs_col F p b)"
    by (simp add: z b)
  fix j assume "j < length z"
  then have j: "j < n" by (simp add: z)
  let ?d = "\<lambda>j. z ! j - getrs_col F p b ! j"
  have "(\<Sum>j<n. entry A i j * ?d j) = 0" if "i < n" for i
    using sol that getrs_col_solves [OF fac e0 e1 piv b that]
    by (simp add: right_diff_distrib sum_subtractf)
  then have "?d j = 0"
    using factors_kernel [OF fac e0 e1 piv _ j, of ?d] by blast
  then show "z ! j = getrs_col F p b ! j" by simp
qed

section \<open>Properties: the transform to coefficients in memory\<close>

text \<open>
  On every store, \<^verbatim>\<open>vals2coefs\<close> with its buffers in memory returns the array that the
  transform on values returns, and leaves every buffer that was in use as it was.
\<close>

lemma vals2coefs_st_value:
  "map_sum id (\<lambda>(x, s'). load s' x) (vals2coefs_st m g s) = vals2coefs m (load s g)"
  by (auto simp: vals2coefs_st_def vals2coefs_def load_def new_array_def reshape_view_def
      reshape_def getrs_inplace_def asize_def to_layout_def Let_def getrs_def
      split: sum.splits list.splits)

lemma vals2coefs_st_frame:
  assumes "vals2coefs_st m g s = Inr (x, s')" and "a < next_free s"
  shows "buffers s' a = buffers s a"
  using assms
  by (auto simp: vals2coefs_st_def new_array_def reshape_view_def getrs_inplace_def Let_def
      split: if_splits sum.splits)


lemma vals2coefs_st_result:
  assumes "vals2coefs m (load s g) = Inr x0"
  obtains x s' where "vals2coefs_st m g s = Inr (x, s')" and "load s' x = x0"
  using vals2coefs_st_value [of m g s] assms
  by (cases "vals2coefs_st m g s") auto

lemma vals2coefs_st_handle:
  assumes "vals2coefs_st m g s = Inr (x, s')"
  shows "vshape x = vshape g" and "vlayout x = vlayout g"
  using assms
  by (auto simp: vals2coefs_st_def new_array_def to_layout_def load_def Let_def
      split: if_splits sum.splits)

lemma elem_at_column:
  "i < shape a ! 0 \<Longrightarrow> data (column a js) ! i = elem_at a (i # js)"
  by (simp add: column_def)

section \<open>Properties: the solve in exact arithmetic\<close>

text \<open>
  What the solve with the stored factors amounts to when nothing is rounded. Let the scalars
  be the elements of a field, which the numbers of the machine are not, and let the factors
  and pivots belong to the matrix \<^verbatim>\<open>cf2if\<close>. Then \<^verbatim>\<open>vals2coefs\<close> returns an array \<open>x\<close> with
  \<open>cf2if * x = g\<close> in every column of the batch, and the column of \<open>x\<close> is the only solution.
\<close>

lemma vals2coefs_exact_solution:
  fixes m :: "'a::field imfreq_ops_2d"
  assumes "ready m" and "factors_of (lu (if2cf m)) (piv (if2cf m)) (cf2if m)"
    and "wf_array (load s g)" and "vaddr g < next_free s" and "rank m = int (vshape g ! 0)"
  shows "\<exists>x s'. vals2coefs_st m g s = Inr (x, s')
           \<and> vshape x = vshape g \<and> vlayout x = vlayout g
           \<and> (\<forall>i js. valid_index (vshape g) (i # js) \<longrightarrow>
                 (\<Sum>l<vshape g ! 0. entry (cf2if m) i l * elem_at (load s' x) (l # js))
                   = elem_at (load s g) (i # js))
           \<and> (\<forall>js z. valid_index (tl (vshape g)) js \<and> length z = vshape g ! 0
                   \<and> (\<forall>i<vshape g ! 0. (\<Sum>l<vshape g ! 0. entry (cf2if m) i l * z ! l)
                          = elem_at (load s g) (i # js))
                 \<longrightarrow> z = data (column (load s' x) js))
           \<and> load s' g = load s g
           \<and> (\<forall>a<next_free s. buffers s' a = buffers s a)"
proof -
  let ?g = "load s g"
  let ?r = "vshape g ! 0"
  let ?F = "lu (if2cf m)"
  let ?p = "piv (if2cf m)"
  have sg: "shape ?g = vshape g" by (simp add: load_def)
  from assms(1,5) have e0: "extent0 (cf2if m) = ?r" and e1: "extent1 (cf2if m) = ?r"
    and pv: "pivots_ok ?r ?p"
    by (auto simp: ready_def)
  from assms(3) have ne: "shape ?g \<noteq> []" by (simp add: wf_array_def)
  have r: "rank m = int (shape ?g ! 0)" using assms(5) sg by simp
  from vals2coefs_ready [OF assms(1,3) r] obtain x0 where
    x0: "vals2coefs m ?g = Inr x0" "shape x0 = vshape g"
    and el: "\<And>i js. valid_index (vshape g) (i # js) \<Longrightarrow>
               elem_at x0 (i # js) = getrs_col ?F ?p (data (column ?g js)) ! i"
    unfolding sg by blast
  have vc: "valid_index (vshape g) (i # js)"
    if "valid_index (tl (vshape g)) js" "i < ?r" for i js
    using valid_index_column [of ?g js i] ne that by (simp add: sg)
  from vals2coefs_st_result [OF x0(1)] obtain x s' where
    st: "vals2coefs_st m g s = Inr (x, s')" and ld: "load s' x = x0"
    by blast
  have lc: "length (data (column ?g js)) = ?r" for js
    by (simp add: column_def sg)
  have solves: "(\<Sum>l<?r. entry (cf2if m) i l * elem_at x0 (l # js)) = elem_at ?g (i # js)"
    if vi: "valid_index (vshape g) (i # js)" for i js
  proof -
    from valid_index_leading(2,3) [of ?g i js] vi sg
    have i: "i < ?r" and vj: "valid_index (tl (vshape g)) js" by simp_all
    have "(\<Sum>l<?r. entry (cf2if m) i l * elem_at x0 (l # js))
            = (\<Sum>l<?r. entry (cf2if m) i l * getrs_col ?F ?p (data (column ?g js)) ! l)"
      using vc [OF vj] by (intro sum.cong) (auto simp: el)
    also have "\<dots> = data (column ?g js) ! i"
      using getrs_col_solves [OF assms(2) e0 e1 pv lc i] .
    also have "\<dots> = elem_at ?g (i # js)"
      using i sg by (simp add: elem_at_column)
    finally show ?thesis .
  qed
  have unique: "z = data (column x0 js)"
    if vj: "valid_index (tl (vshape g)) js" and lz: "length z = ?r"
      and sol: "\<forall>i<?r. (\<Sum>l<?r. entry (cf2if m) i l * z ! l) = elem_at ?g (i # js)" for js z
  proof -
    have "\<forall>i<?r. (\<Sum>l<?r. entry (cf2if m) i l * z ! l) = data (column ?g js) ! i"
      using sol sg by (simp add: elem_at_column)
    from getrs_col_unique [OF assms(2) e0 e1 pv lc lz this]
    have z: "z = getrs_col ?F ?p (data (column ?g js))" .
    have "data (column x0 js) = map (\<lambda>i. getrs_col ?F ?p (data (column ?g js)) ! i) [0..<?r]"
      using vc [OF vj] x0(2) by (auto simp: column_def el)
    also have "\<dots> = getrs_col ?F ?p (data (column ?g js))"
      by (intro nth_equalityI) (simp_all add: lc)
    finally show ?thesis using z by simp
  qed
  have frame: "buffers s' a = buffers s a" if "a < next_free s" for a
    using vals2coefs_st_frame [OF st that] .
  have same: "load s' g = load s g"
    using frame [OF assms(4)] by (simp add: load_def)
  show ?thesis
  proof (intro exI conjI allI impI; (elim conjE)?)
    show "vals2coefs_st m g s = Inr (x, s')" by (rule st)
    show "vshape x = vshape g" "vlayout x = vlayout g"
      using vals2coefs_st_handle [OF st] by simp_all
    show "load s' g = load s g" by (rule same)
    show "buffers s' a = buffers s a" if "a < next_free s" for a
      using frame [OF that] .
    show "(\<Sum>l<?r. entry (cf2if m) i l * elem_at (load s' x) (l # js)) = elem_at ?g (i # js)"
      if "valid_index (vshape g) (i # js)" for i js
      unfolding ld using solves [OF that] .
    show "z = data (column (load s' x) js)"
      if "valid_index (tl (vshape g)) js" and "length z = ?r"
        and "\<forall>i<?r. (\<Sum>l<?r. entry (cf2if m) i l * z ! l) = elem_at ?g (i # js)" for js z
      unfolding ld using unique [OF that] .
  qed
qed

section \<open>Properties: the round trip in exact arithmetic\<close>

lemma foldl_add_sum:
  fixes f :: "nat \<Rightarrow> 'a::comm_monoid_add"
  shows "foldl (\<lambda>acc l. acc + f l) 0 [0..<n] = (\<Sum>l<n. f l)"
  by (induction n) simp_all

lemma ndarray_eqI:
  assumes "shape a = shape b" and "layout a = layout b"
    and "length (data a) = asize a" and "length (data b) = asize b"
    and "\<And>idx. valid_index (shape a) idx \<Longrightarrow> elem_at a idx = elem_at b idx"
  shows "a = b"
proof -
  have "data a = data b"
  proof (rule nth_equalityI)
    show "length (data a) = length (data b)"
      using assms(1,3,4) by (simp add: asize_def)
    fix k assume "k < length (data a)"
    then have k: "k < prod_list (shape a)"
      using assms(3) by (simp add: asize_def)
    from assms(5) [OF multi_index_valid [OF k, of "layout a"]]
    show "data a ! k = data b ! k"
      using offset_multi_index [OF k, of "layout a"] assms(1,2)
      by (simp add: elem_at_def)
  qed
  with assms(1,2) show ?thesis by simp
qed

text \<open>
  With the scalars of a field, and factors that belong to the matrix, \<^verbatim>\<open>coefs2vals\<close> after
  \<^verbatim>\<open>vals2coefs\<close> returns the array it started from.
\<close>

lemma roundtrip_exact:
  fixes m :: "'a::field imfreq_ops_2d"
  assumes "ready m" and "factors_of (lu (if2cf m)) (piv (if2cf m)) (cf2if m)"
    and "wf_array g" and "rank m = int (shape g ! 0)"
  shows "\<exists>x. vals2coefs m g = Inr x \<and> coefs2vals id m x = Inr g"
proof -
  let ?r = "shape g ! 0"
  let ?F = "lu (if2cf m)"
  let ?p = "piv (if2cf m)"
  from assms(1,4) have e0: "extent0 (cf2if m) = ?r" and e1: "extent1 (cf2if m) = ?r"
    and pv: "pivots_ok ?r ?p"
    by (auto simp: ready_def)
  from assms(3) have ne: "shape g \<noteq> []" and lg: "length (data g) = asize g"
    by (simp_all add: wf_array_def)
  from vals2coefs_ready [OF assms(1,3,4)] obtain x where
    x: "vals2coefs m g = Inr x" "shape x = shape g" "layout x = layout g"
      "length (data x) = asize g"
    and el: "\<And>i js. valid_index (shape g) (i # js) \<Longrightarrow>
               elem_at x (i # js) = getrs_col ?F ?p (data (column g js)) ! i"
    by blast
  have wx: "wf_array x" and rx: "rank m = int (shape x ! 0)"
    using x ne assms(4) by (simp_all add: wf_array_def asize_def)
  from coefs2vals_ready [OF assms(1) wx rx, of id] obtain y where
    y: "coefs2vals id m x = Inr y" "shape y = shape x" "layout y = layout x"
      "length (data y) = asize x"
    and ely: "\<And>i js. valid_index (shape x) (i # js) \<Longrightarrow> elem_at y (i # js)
          = foldl (\<lambda>acc l. acc + entry (cf2if m) i l * id (elem_at x (l # js))) 0 [0..<shape x ! 0]"
    by blast
  have "y = g"
  proof (rule ndarray_eqI)
    show "shape y = shape g" "layout y = layout g"
      using x y by simp_all
    show "length (data y) = asize y" "length (data g) = asize g"
      using x y lg by (simp_all add: asize_def)
    fix idx assume "valid_index (shape y) idx"
    then have v: "valid_index (shape g) idx" using x y by simp
    with ne obtain i js where idx: "idx = i # js"
      by (cases "shape g") (auto simp: valid_index_Cons)
    from valid_index_leading(2,3) [of g i js] v idx
    have i: "i < ?r" and vj: "valid_index (tl (shape g)) js" by simp_all
    have lc: "length (data (column g js)) = ?r"
      by (simp add: column_def)
    have "elem_at y (i # js) = (\<Sum>l<?r. entry (cf2if m) i l * elem_at x (l # js))"
      using ely [of i js] v idx x(2) by (simp add: foldl_add_sum)
    also have "\<dots> = (\<Sum>l<?r. entry (cf2if m) i l * getrs_col ?F ?p (data (column g js)) ! l)"
      using valid_index_column [OF ne vj] by (intro sum.cong) (auto simp: el)
    also have "\<dots> = data (column g js) ! i"
      using getrs_col_solves [OF assms(2) e0 e1 pv lc i] .
    also have "\<dots> = elem_at g (i # js)"
      using i by (simp add: elem_at_column)
    finally show "elem_at y idx = elem_at g idx"
      by (simp add: idx)
  qed
  with x(1) y(1) show ?thesis by blast
qed

section \<open>Properties: the transform to coefficients solves with the stored factors\<close>






end
